theory Spec2Isabelle
  imports Complex_Main "HOL-Library.Word" "HOL-Library.Sublist"
begin

section \<open>JavaScript strings\<close>

text \<open>
  A JavaScript string is a sequence of UTF-16 code units: \<open>length\<close>, \<open>substring\<close>,
  \<open>startsWith\<close>, \<open>includes\<close> and the regular expressions of the sources all work on code
  units. String literals of the sources that are plain ASCII are written \<open>lit ''...''\<close>.
\<close>

type_synonym jsstring = "16 word list"

definition lit :: "string \<Rightarrow> jsstring" where
  "lit s = map (\<lambda>c. of_char c) s"

text \<open>\<open>s.includes(p)\<close> and \<open>s.startsWith(p)\<close>.\<close>

definition includesStr :: "jsstring \<Rightarrow> jsstring \<Rightarrow> bool" where
  "includesStr s p = sublist p s"

definition startsWith :: "jsstring \<Rightarrow> jsstring \<Rightarrow> bool" where
  "startsWith s p = prefix p s"



text \<open>
  The class \<open>\s\<close> of a regular expression, which is also what \<open>trim\<close> strips: the white
  space and line terminator code points of ECMAScript.
\<close>

definition isSpace :: "16 word \<Rightarrow> bool" where
  "isSpace c = (c = 0x09 \<or> c = 0x0A \<or> c = 0x0B \<or> c = 0x0C \<or> c = 0x0D \<or> c = 0x20 \<or>
     c = 0xA0 \<or> c = 0x1680 \<or> (0x2000 \<le> c \<and> c \<le> 0x200A) \<or> c = 0x2028 \<or> c = 0x2029 \<or>
     c = 0x202F \<or> c = 0x205F \<or> c = 0x3000 \<or> c = 0xFEFF)"


definition trim :: "jsstring \<Rightarrow> jsstring" where
  "trim s = rev (dropWhile isSpace (rev (dropWhile isSpace s)))"

section \<open>Pipeline context and intent classification (validation.ts)\<close>

datatype PipelineStage =
  Idle | Query_parsing | Tool_selection | Executing | Summarizing | Complete | Failed

datatype QueryIntent =
  Factual | Comparison | Research | Real_time | Action | Calculation | Creative | General

record TaskResult =
  tr_taskId :: jsstring
  tr_tool :: jsstring
  tr_rawResult :: jsstring
  tr_summary :: "jsstring option"
  tr_success :: bool
  tr_error :: "jsstring option"

record Citation =
  c_index :: int
  c_title :: jsstring
  c_url :: jsstring
  c_snippet :: "jsstring option"

record PipelineContext =
  originalQuery :: jsstring
  intent :: QueryIntent
  decomposedQueries :: "jsstring list"
  selectedTool :: jsstring
  taskResults :: "TaskResult list"
  finalAnswer :: jsstring
  citations :: "Citation list"
  stage :: PipelineStage
  progress :: int
  startTime :: int
  endTime :: "int option"














text \<open>\<open>updateStage\<close>; \<open>now\<close> is the value of \<open>Date.now()\<close> at the call.\<close>

definition updateStage :: "PipelineContext \<Rightarrow> PipelineStage \<Rightarrow> int \<Rightarrow> int \<Rightarrow> PipelineContext" where
  "updateStage context stg prog now =
     context\<lparr>stage := stg, progress := prog,
       endTime := (if stg = Complete \<or> stg = Failed then Some now else None)\<rparr>"

section \<open>Values, payloads and thrown values\<close>

text \<open>
  A payload is a JSON object (\<open>Record<string, unknown>\<close>), a map from keys to values. The
  values modelled are the JSON scalars and \<open>undefined\<close>; numbers are integers.
\<close>

datatype jval = JUndefined | JNull | JBool bool | JNum int | JStr jsstring

type_synonym payload = "jsstring \<rightharpoonup> jval"

text \<open>Reading a property: a missing key reads as \<open>undefined\<close>.\<close>

definition getProp :: "payload \<Rightarrow> jsstring \<Rightarrow> jval" where
  "getProp p k = (case p k of None \<Rightarrow> JUndefined | Some v \<Rightarrow> v)"

function decimal :: "nat \<Rightarrow> jsstring" where
  "decimal n =
     (if n < 10 then [of_nat (48 + n)] else decimal (n div 10) @ [of_nat (48 + n mod 10)])"
  by pat_completeness auto
termination
  by (relation "measure id") auto

text \<open>\<open>String(v)\<close>, which is also what a template literal does to an interpolated value.\<close>

definition toStringJS :: "jval \<Rightarrow> jsstring" where
  "toStringJS v =
     (case v of
        JUndefined \<Rightarrow> lit ''undefined''
      | JNull \<Rightarrow> lit ''null''
      | JBool b \<Rightarrow> (if b then lit ''true'' else lit ''false'')
      | JNum n \<Rightarrow> (if n < 0 then lit ''-'' @ decimal (nat (- n)) else decimal (nat n))
      | JStr s \<Rightarrow> s)"

text \<open>
  What a \<open>throw\<close> carries: an \<open>Error\<close> object with its message, or any other value. The
  handlers read it with \<open>error instanceof Error ? error.message : <default>\<close>.
\<close>

datatype thrown = Error jsstring | NonError

definition errorMessage :: "thrown \<Rightarrow> jsstring \<Rightarrow> jsstring" where
  "errorMessage e dflt = (case e of Error m \<Rightarrow> m | NonError \<Rightarrow> dflt)"

text \<open>Truthiness of an optional string: \<open>undefined\<close> and the empty string are falsy.\<close>

definition truthy :: "jsstring option \<Rightarrow> bool" where
  "truthy v = (case v of None \<Rightarrow> False | Some s \<Rightarrow> s \<noteq> [])"

section \<open>The tool registry and the world outside (dispatcher.ts)\<close>

text \<open>
  A tool definition; of its four fields the name and the enabled flag are modelled, the
  description and the example payload are texts no function here reads.
\<close>

record ToolDefinition =
  td_name :: jsstring
  td_enabled :: bool

record CustomToolConfig =
  ct_name :: jsstring
  ct_description :: jsstring
  ct_type :: jsstring
  ct_command :: "jsstring option"
  ct_url :: "jsstring option"
  ct_method :: "jsstring option"

text \<open>The summarizer's answer: it throws at once, or it yields a stream of chunk
  contents (an empty content stands for a chunk without one) whose iteration ends normally
  or with an exception.\<close>

datatype summarizer = SummaryThrows | SummaryStream "jsstring list" bool

text \<open>
  Everything the core calls but does not define: the process environment, the loaded
  custom tools, the adapters, and the platform's \<open>URL\<close> and \<open>JSON\<close>. An adapter maps a
  payload to what it throws or returns; \<open>executeSearch\<close> also gives the lines it logs.
  \<open>parseURL\<close> is \<open>new URL(s)\<close>: the hostname and the pathname, or \<open>None\<close> where the
  constructor throws. \<open>JSON_parse\<close> is \<open>JSON.parse\<close> on the text of an object, as the client
  sends it, or \<open>None\<close> where it throws. \<open>logTaskExecutedThrows\<close> says whether writing the
  audit entry of an executed task fails. Every external call is taken to return.
\<close>

record world =
  processEnv :: "jsstring \<rightharpoonup> jsstring"
  CUSTOM_TOOLS :: "CustomToolConfig list"
  executeFilesystem :: "payload \<Rightarrow> thrown + jsstring"
  executeGithub :: "payload \<Rightarrow> thrown + jsstring"
  executeSlack :: "payload \<Rightarrow> thrown + jsstring"
  executeCalendar :: "payload \<Rightarrow> thrown + jsstring"
  executeTerminal :: "payload \<Rightarrow> thrown + jsstring"
  executeBrowser :: "payload \<Rightarrow> thrown + jsstring"
  executeSearch :: "payload \<Rightarrow> jsstring list \<times> (thrown + jsstring)"
  executeLeetCode :: "payload \<Rightarrow> thrown + jsstring"
  executeMCPRegistry :: "payload \<Rightarrow> thrown + jsstring"
  executeUtility :: "payload \<Rightarrow> thrown + jsstring"
  executeCustomTool :: "payload \<Rightarrow> CustomToolConfig \<Rightarrow> thrown + jsstring"
  parseURL :: "jsstring \<Rightarrow> (jsstring \<times> jsstring) option"
  JSON_parse :: "jsstring \<Rightarrow> payload option"
  streamSummarizeToolResult :: "jsstring \<Rightarrow> jsstring \<Rightarrow> jsstring \<Rightarrow> summarizer"
  logTaskExecutedThrows :: bool

definition TOOL_DEFINITIONS :: "(jsstring \<rightharpoonup> jsstring) \<Rightarrow> ToolDefinition list" where
  "TOOL_DEFINITIONS env =
     [\<lparr>td_name = lit ''filesystem'',
        td_enabled = (env (lit ''ENABLE_FILESYSTEM'') \<noteq> Some (lit ''false''))\<rparr>,
      \<lparr>td_name = lit ''github'',
        td_enabled = (env (lit ''ENABLE_GITHUB'') \<noteq> Some (lit ''false''))\<rparr>,
      \<lparr>td_name = lit ''slack'',
        td_enabled = (env (lit ''ENABLE_SLACK'') \<noteq> Some (lit ''false''))\<rparr>,
      \<lparr>td_name = lit ''calendar'',
        td_enabled = (env (lit ''ENABLE_CALENDAR'') \<noteq> Some (lit ''false''))\<rparr>,
      \<lparr>td_name = lit ''terminal'',
        td_enabled = (env (lit ''ALLOW_TERMINAL'') = Some (lit ''true''))\<rparr>,
      \<lparr>td_name = lit ''browser'',
        td_enabled = (env (lit ''ENABLE_BROWSER'') \<noteq> Some (lit ''false''))\<rparr>,
      \<lparr>td_name = lit ''search'',
        td_enabled = (env (lit ''ENABLE_SEARCH'') \<noteq> Some (lit ''false''))\<rparr>,
      \<lparr>td_name = lit ''leetcode'',
        td_enabled = (env (lit ''ENABLE_LEETCODE'') \<noteq> Some (lit ''false''))\<rparr>,
      \<lparr>td_name = lit ''mcp_registry'', td_enabled = True\<rparr>,
      \<lparr>td_name = lit ''utility'',
        td_enabled = (env (lit ''ENABLE_UTILITY'') \<noteq> Some (lit ''false''))\<rparr>]"

text \<open>
  The \<open>catch\<close> branch of the browser case: the query for the fallback search.
  \<open>pathname.replace(/\//g, ' ')\<close> turns every slash into a space; \<open>trim\<close> strips both ends.
\<close>

definition slashesToSpaces :: "jsstring \<Rightarrow> jsstring" where
  "slashesToSpaces s = map (\<lambda>c. if c = 0x2F then 0x20 else c) s"

definition fallbackQuery :: "world \<Rightarrow> jval \<Rightarrow> jval" where
  "fallbackQuery w url =
     (case parseURL w (toStringJS url) of
        Some (hostname, pathname) \<Rightarrow> JStr (trim (hostname @ lit '' '' @ slashesToSpaces pathname))
      | None \<Rightarrow> url)"

definition fallbackPayload :: "jval \<Rightarrow> payload" where
  "fallbackPayload searchQuery =
     [lit ''action'' \<mapsto> JStr (lit ''search''), lit ''query'' \<mapsto> searchQuery,
      lit ''limit'' \<mapsto> JNum 5, lit ''deepFetch'' \<mapsto> JBool True]"

definition browserFallback :: "world \<Rightarrow> payload \<Rightarrow> bool \<Rightarrow> jsstring list \<times> (thrown + jsstring)" where
  "browserFallback w payload onLog =
     (let url = getProp payload (lit ''url'');
          log1 = lit ''[Dispatcher] Browser failed for '' @ toStringJS url @
                 lit '', falling back to search...'';
          searchQuery = fallbackQuery w url;
          log2 = lit ''[Dispatcher] Searching for: '' @ [0x22] @ toStringJS searchQuery @ [0x22];
          (searchLogs, searchResult) = executeSearch w (fallbackPayload searchQuery)
      in (if onLog then [log1, log2] @ searchLogs else [],
          case searchResult of
            Inl e \<Rightarrow> Inl e
          | Inr r \<Rightarrow> Inr (lit ''[Fallback from browser to search]'' @ [0x0A, 0x0A] @ r)))"

text \<open>
  \<open>dispatchTool\<close>. \<open>onLog\<close> says whether a log sink was passed; the result is the lines the
  sink received, and what the call throws (\<open>Inl\<close>) or returns (\<open>Inr\<close>).
\<close>

definition dispatchTool :: "world \<Rightarrow> jsstring \<Rightarrow> payload \<Rightarrow> bool \<Rightarrow> jsstring list \<times> (thrown + jsstring)" where
  "dispatchTool w tool payload onLog =
     (let toolDef = find (\<lambda>t. td_name t = tool) (TOOL_DEFINITIONS (processEnv w));
          customToolConfig = find (\<lambda>t. ct_name t = tool) (CUSTOM_TOOLS w)
      in if (case toolDef of None \<Rightarrow> True | Some d \<Rightarrow> \<not> td_enabled d) \<and> customToolConfig = None
         then ([], Inl (Error (lit ''Tool '' @ [0x27] @ tool @ [0x27] @
                 lit '' is not enabled or does not exist.'')))
         else case customToolConfig of
           Some c \<Rightarrow> ([], executeCustomTool w ([lit ''toolName'' \<mapsto> JStr tool] ++ payload) c)
         | None \<Rightarrow>
             if tool = lit ''filesystem'' then ([], executeFilesystem w payload)
             else if tool = lit ''github'' then ([], executeGithub w payload)
             else if tool = lit ''slack'' then ([], executeSlack w payload)
             else if tool = lit ''calendar'' then ([], executeCalendar w payload)
             else if tool = lit ''terminal'' then ([], executeTerminal w payload)
             else if tool = lit ''browser'' then
               (case executeBrowser w payload of
                  Inr r \<Rightarrow> ([], Inr r)
                | Inl error \<Rightarrow> browserFallback w payload onLog)
             else if tool = lit ''search'' then
               (let (searchLogs, r) = executeSearch w payload
                in (if onLog then searchLogs else [], r))
             else if tool = lit ''leetcode'' then ([], executeLeetCode w payload)
             else if tool = lit ''mcp_registry'' then ([], executeMCPRegistry w payload)
             else if tool = lit ''utility'' then ([], executeUtility w payload)
             else ([], Inl (Error (lit ''Unknown tool: '' @ tool))))"

section \<open>Chained dispatch and the transform table (dispatcher.ts)\<close>

text \<open>
  \<open>s.replace(/p1|p2|.../g, '')\<close> for literal, non-empty alternatives: at each position from
  the left the alternatives are tried in their order, a match is cut out and the scan
  goes on behind it.
\<close>

function removeAll :: "jsstring list \<Rightarrow> jsstring \<Rightarrow> jsstring" where
  "removeAll ps [] = []"
| "removeAll ps (c # cs) =
     (case find (\<lambda>p. p \<noteq> [] \<and> prefix p (c # cs)) ps of
        Some p \<Rightarrow> removeAll ps (drop (length p - 1) cs)
      | None \<Rightarrow> c # removeAll ps cs)"
  by pat_completeness auto
termination
  by (relation "measure (\<lambda>(ps, s). length s)") auto

text \<open>
  The five alternatives of the first regular expression of \<open>transformResultForNext\<close>, code
  unit by code unit as the source file has them.
\<close>

definition emojiPatterns :: "jsstring list" where
  "emojiPatterns =
     [[0xF0, 0x178, 0x201D], [0xF0, 0x178, 0x152], [0xF0, 0x178, 0x201C, 0x2039],
      [0xF0, 0x178, 0x201C, 0x201E], [0xF0, 0x178, 0x201D, 0x2014]]"

text \<open>\<open>s.split('\n')\<close> and \<open>lines.join('\n')\<close>.\<close>

fun splitLines :: "jsstring \<Rightarrow> jsstring list" where
  "splitLines [] = [[]]"
| "splitLines (c # cs) =
     (if c = 0x0A then [] # splitLines cs
      else (c # hd (splitLines cs)) # tl (splitLines cs))"

fun joinLines :: "jsstring list \<Rightarrow> jsstring" where
  "joinLines [] = []"
| "joinLines [l] = l"
| "joinLines (l # ls) = l @ [0x0A] @ joinLines ls"

definition transformResultForNext :: "jsstring \<Rightarrow> jsstring \<Rightarrow> jsstring \<Rightarrow> jsstring" where
  "transformResultForNext result fromTool toTool =
     (if (fromTool = lit ''search'' \<or> fromTool = lit ''browser'') \<and> toTool = lit ''filesystem''
      then take 10000 (removeAll [lit ''**''] (removeAll emojiPatterns result))
      else if (fromTool = lit ''search'' \<or> fromTool = lit ''browser'') \<and> toTool = lit ''slack''
      then joinLines (take 10 (filter (\<lambda>l. trim l \<noteq> []) (splitLines result)))
      else result)"

record ChainedToolResult =
  cr_success :: bool
  cr_tool :: jsstring
  cr_result :: jsstring
  cr_fallbackUsed :: "jsstring option"
  cr_transformedForNext :: "jsstring option"

text \<open>\<open>previousResult ? { ...payload, previousContext: previousResult } : payload\<close>.\<close>

definition enrichedPayload :: "payload \<Rightarrow> jsstring option \<Rightarrow> payload" where
  "enrichedPayload payload previousResult =
     (if truthy previousResult
      then payload(lit ''previousContext'' \<mapsto> JStr (the previousResult))
      else payload)"

text \<open>
  \<open>dispatchToolWithChaining\<close>: the body of its \<open>try\<close> gives \<open>Inl\<close> where dispatch throws, and
  the \<open>catch\<close> turns that into a result object. The outcome keeps the shape
  \<open>thrown + ChainedToolResult\<close>, so that not throwing is a property, not a type.
\<close>

definition chainedSuccess :: "jsstring \<Rightarrow> jsstring \<Rightarrow> jsstring option \<Rightarrow> ChainedToolResult" where
  "chainedSuccess tool result nextTool =
     \<lparr>cr_success = True, cr_tool = tool, cr_result = result,
      cr_fallbackUsed =
        (if startsWith result (lit ''[Fallback'') then Some (lit ''search'') else None),
      cr_transformedForNext =
        (if truthy nextTool \<and> result \<noteq> []
         then Some (transformResultForNext result tool (the nextTool)) else None)\<rparr>"

definition chainedFailure :: "jsstring \<Rightarrow> thrown \<Rightarrow> ChainedToolResult" where
  "chainedFailure tool error =
     \<lparr>cr_success = False, cr_tool = tool,
      cr_result = errorMessage error (lit ''Unknown error''),
      cr_fallbackUsed = None, cr_transformedForNext = None\<rparr>"

definition dispatchToolWithChaining ::
  "world \<Rightarrow> jsstring \<Rightarrow> payload \<Rightarrow> jsstring option \<Rightarrow> jsstring option \<Rightarrow> bool \<Rightarrow>
   jsstring list \<times> (thrown + ChainedToolResult)" where
  "dispatchToolWithChaining w tool payload previousResult nextTool onLog =
     (let (logs, tried) = dispatchTool w tool (enrichedPayload payload previousResult) onLog
      in (logs,
          case tried of
            Inr result \<Rightarrow> Inr (chainedSuccess tool result nextTool)
          | Inl error \<Rightarrow> Inr (chainedFailure tool error)))"

section \<open>The streaming execute endpoint (index.ts)\<close>

datatype StreamEvent =
  EvStart jsstring jsstring
| EvLog jsstring
| EvToolResult jsstring
| EvSummaryChunk jsstring
| EvDone jsstring
| EvError jsstring

text \<open>The query parameters of a request; a parameter may be missing.\<close>

record query =
  q_taskId :: "jsstring option"
  q_tool :: "jsstring option"
  q_payload :: "jsstring option"
  q_description :: "jsstring option"

text \<open>
  Step 3 of the handler, the inner \<open>try\<close>: the chunks with a content are sent and
  accumulated; when the summarizer, the iteration or \<open>logTaskExecuted\<close> throws, the
  \<open>catch\<close> sends the raw result.
\<close>

definition summaryEvents :: "world \<Rightarrow> jsstring \<Rightarrow> jsstring \<Rightarrow> jsstring \<Rightarrow> StreamEvent list" where
  "summaryEvents w description tool rawResult =
     (case streamSummarizeToolResult w description tool rawResult of
        SummaryThrows \<Rightarrow> [EvSummaryChunk rawResult, EvDone rawResult]
      | SummaryStream chunks iterationThrows \<Rightarrow>
          (let sent = filter (\<lambda>content. content \<noteq> []) chunks;
               fullSummary = concat sent
           in map EvSummaryChunk sent @
              (if iterationThrows \<or> logTaskExecutedThrows w
               then [EvSummaryChunk rawResult, EvDone rawResult]
               else [EvDone fullSummary])))"

text \<open>The handler of \<open>GET /api/stream-execute\<close>: the events it writes, in order.\<close>

definition stream_execute :: "world \<Rightarrow> query \<Rightarrow> StreamEvent list" where
  "stream_execute w req =
     (let description =
            (if truthy (q_description req) then the (q_description req) else lit ''Execute task'')
      in if \<not> truthy (q_taskId req) \<or> \<not> truthy (q_tool req) \<or> \<not> truthy (q_payload req)
         then [EvError (lit ''Missing required parameters'')]
         else case JSON_parse w (the (q_payload req)) of
           None \<Rightarrow> [EvError (lit ''Invalid payload JSON'')]
         | Some payload \<Rightarrow>
             (let taskId = the (q_taskId req); tool = the (q_tool req);
                  (logs, dispatched) = dispatchTool w tool payload True
              in EvStart taskId tool # map EvLog logs @
                 (case dispatched of
                    Inr rawResult \<Rightarrow>
                      EvToolResult rawResult # summaryEvents w description tool rawResult
                  | Inl error \<Rightarrow> [EvError (errorMessage error (lit ''Execution failed''))])))"

section \<open>The client: one task and the plan loop (mcpClient.ts, App.tsx)\<close>

datatype TaskStatus = pending | approved | executing | success | failed

record Task =
  t_id :: jsstring
  t_description :: jsstring
  t_tool :: jsstring
  t_payload :: payload
  t_confidence :: real
  t_status :: TaskStatus
  t_result :: "jsstring option"
  t_error :: "jsstring option"
  t_logs :: "jsstring list option"

record Message =
  m_id :: jsstring
  m_type :: jsstring
  m_content :: jsstring
  m_task :: "Task option"

record ExecuteRequest =
  r_taskId :: jsstring
  r_tool :: jsstring
  r_payload :: payload
  r_description :: "jsstring option"

text \<open>
  The query string \<open>streamExecuteTask\<close> builds; \<open>stringify\<close> is \<open>JSON.stringify\<close>.
\<close>

definition toQuery :: "(payload \<Rightarrow> jsstring) \<Rightarrow> ExecuteRequest \<Rightarrow> query" where
  "toQuery stringify request =
     \<lparr>q_taskId = Some (r_taskId request), q_tool = Some (r_tool request),
      q_payload = Some (stringify (r_payload request)),
      q_description =
        Some (if truthy (r_description request) then the (r_description request) else [])\<rparr>"

text \<open>
  What reaches \<open>onEvent\<close>, given the events of the response. The listeners pass the events
  on in order; those of \<open>done\<close> and \<open>error\<close> close the source, so nothing behind the first
  of them is delivered. The \<open>error\<close> listener keeps the message of the data when there is
  one, and says \<open>Stream connection error\<close> otherwise; that is also what it says when the
  response ends with neither event and the source raises its own error.
\<close>

definition isTerminal :: "StreamEvent \<Rightarrow> bool" where
  "isTerminal e = (case e of EvDone _ \<Rightarrow> True | EvError _ \<Rightarrow> True | _ \<Rightarrow> False)"

definition listenerMessage :: "jsstring \<Rightarrow> jsstring" where
  "listenerMessage m = (if m \<noteq> [] then m else lit ''Stream connection error'')"

fun delivered :: "StreamEvent list \<Rightarrow> StreamEvent list" where
  "delivered [] = [EvError (lit ''Stream connection error'')]"
| "delivered (e # es) =
     (case e of
        EvDone r \<Rightarrow> [EvDone r]
      | EvError m \<Rightarrow> [EvError (listenerMessage m)]
      | _ \<Rightarrow> e # delivered es)"

definition streamExecuteTask ::
  "(query \<Rightarrow> StreamEvent list) \<Rightarrow> (payload \<Rightarrow> jsstring) \<Rightarrow> ExecuteRequest \<Rightarrow> StreamEvent list" where
  "streamExecuteTask server stringify request = delivered (server (toQuery stringify request))"

text \<open>\<open>updateTaskInMessages\<close>; the partial task of the source is the update \<open>updates\<close>.\<close>

definition updateTaskInMessages :: "jsstring \<Rightarrow> (Task \<Rightarrow> Task) \<Rightarrow> Message list \<Rightarrow> Message list" where
  "updateTaskInMessages taskId updates prev =
     map (\<lambda>msg. case m_task msg of
                  None \<Rightarrow> msg
                | Some t \<Rightarrow> if t_id t = taskId then msg\<lparr>m_task := Some (updates t)\<rparr> else msg)
         prev"

text \<open>The event callback of \<open>executeTaskInternal\<close>, as a step on the messages.\<close>

definition onEvent :: "jsstring \<Rightarrow> StreamEvent \<Rightarrow> Message list \<Rightarrow> Message list" where
  "onEvent taskId event prev =
     (case event of
        EvStart _ _ \<Rightarrow> prev
      | EvLog message \<Rightarrow>
          updateTaskInMessages taskId
            (\<lambda>t. t\<lparr>t_logs := Some ((case t_logs t of None \<Rightarrow> [] | Some ls \<Rightarrow> ls) @ [message])\<rparr>)
            prev
      | EvToolResult _ \<Rightarrow> prev
      | EvSummaryChunk content \<Rightarrow>
          updateTaskInMessages taskId
            (\<lambda>t. t\<lparr>t_result :=
                     Some ((if truthy (t_result t) then the (t_result t) else []) @ content)\<rparr>)
            prev
      | EvDone _ \<Rightarrow> updateTaskInMessages taskId (\<lambda>t. t\<lparr>t_status := success\<rparr>) prev
      | EvError message \<Rightarrow>
          updateTaskInMessages taskId (\<lambda>t. t\<lparr>t_status := failed, t_error := Some message\<rparr>)
            prev)"

text \<open>How the promise of \<open>executeTaskInternal\<close> settles: \<open>done\<close> resolves it, \<open>error\<close>
  rejects it, and without either it stays pending.\<close>

datatype settled = Resolved | Rejected jsstring

fun settlement :: "StreamEvent list \<Rightarrow> settled option" where
  "settlement [] = None"
| "settlement (e # es) =
     (case e of
        EvDone _ \<Rightarrow> Some Resolved
      | EvError m \<Rightarrow> Some (Rejected m)
      | _ \<Rightarrow> settlement es)"

definition executeTaskInternal ::
  "(query \<Rightarrow> StreamEvent list) \<Rightarrow> (payload \<Rightarrow> jsstring) \<Rightarrow> Task \<Rightarrow> Message list \<Rightarrow>
   Message list \<times> StreamEvent list" where
  "executeTaskInternal server stringify task prev =
     (let started =
            updateTaskInMessages (t_id task) (\<lambda>t. t\<lparr>t_status := executing, t_result := Some []\<rparr>)
              prev;
          events =
            streamExecuteTask server stringify
              \<lparr>r_taskId = t_id task, r_tool = t_tool task, r_payload = t_payload task,
               r_description = Some (t_description task)\<rparr>
      in (foldl (\<lambda>msgs e. onEvent (t_id task) e msgs) started events, events))"

text \<open>
  \<open>executeTasksSequentially\<close>. \<open>server i\<close> answers the request of the \<open>i\<close>-th execution.
  The loop awaits the promise of a task; when it stays pending the loop stops there
  (\<open>None\<close>), and both a resolved and a rejected promise lead to the next task. The result
  is the messages at the end and, for each execution in order, the task id with the events
  its callback saw. The pause of 300 ms between two tasks is not modelled.
\<close>

fun executeTasksSequentially ::
  "(nat \<Rightarrow> query \<Rightarrow> StreamEvent list) \<Rightarrow> (payload \<Rightarrow> jsstring) \<Rightarrow> nat \<Rightarrow> Task list \<Rightarrow>
   Message list \<Rightarrow> (Message list \<times> (jsstring \<times> StreamEvent list) list) option" where
  "executeTasksSequentially server stringify i [] msgs = Some (msgs, [])"
| "executeTasksSequentially server stringify i (task # tasks) msgs =
     (let (msgs', events) = executeTaskInternal (server i) stringify task msgs
      in case settlement events of
           None \<Rightarrow> None
         | Some outcome \<Rightarrow>
             (case executeTasksSequentially server stringify (Suc i) tasks msgs' of
                None \<Rightarrow> None
              | Some (final, trace) \<Rightarrow> Some (final, (t_id task, events) # trace)))"

text \<open>The task cards among the messages.\<close>

definition cards :: "Message list \<Rightarrow> Task list" where
  "cards msgs = List.map_filter m_task msgs"

section \<open>Notions the statements use\<close>

text \<open>
  The two lookups at the head of \<open>dispatchTool\<close>: the custom tool of a name, and whether
  the built-in table has an enabled tool of that name.
\<close>

definition findCustomTool :: "world \<Rightarrow> jsstring \<Rightarrow> CustomToolConfig option" where
  "findCustomTool w tool = find (\<lambda>t. ct_name t = tool) (CUSTOM_TOOLS w)"

definition toolEnabled :: "world \<Rightarrow> jsstring \<Rightarrow> bool" where
  "toolEnabled w tool =
     (case find (\<lambda>t. td_name t = tool) (TOOL_DEFINITIONS (processEnv w)) of
        None \<Rightarrow> False
      | Some d \<Rightarrow> td_enabled d)"

text \<open>
  The adapter behind each case of the switch of \<open>dispatchTool\<close> other than \<open>browser\<close>, as
  the outcome it gives for a payload.
\<close>

definition adapterOf :: "world \<Rightarrow> jsstring \<Rightarrow> (payload \<Rightarrow> thrown + jsstring) option" where
  "adapterOf w tool =
     (if tool = lit ''filesystem'' then Some (executeFilesystem w)
      else if tool = lit ''github'' then Some (executeGithub w)
      else if tool = lit ''slack'' then Some (executeSlack w)
      else if tool = lit ''calendar'' then Some (executeCalendar w)
      else if tool = lit ''terminal'' then Some (executeTerminal w)
      else if tool = lit ''search'' then Some (\<lambda>p. snd (executeSearch w p))
      else if tool = lit ''leetcode'' then Some (executeLeetCode w)
      else if tool = lit ''mcp_registry'' then Some (executeMCPRegistry w)
      else if tool = lit ''utility'' then Some (executeUtility w)
      else None)"

text \<open>
  A request that passes the two checks of the handler before step 1: the three
  parameters are there and the payload parses.
\<close>

definition accepted :: "world \<Rightarrow> query \<Rightarrow> bool" where
  "accepted w req =
     (truthy (q_taskId req) \<and> truthy (q_tool req) \<and> truthy (q_payload req) \<and>
      JSON_parse w (the (q_payload req)) \<noteq> None)"

definition isStart :: "StreamEvent \<Rightarrow> bool" where
  "isStart e = (case e of EvStart _ _ \<Rightarrow> True | _ \<Rightarrow> False)"

definition isLog :: "StreamEvent \<Rightarrow> bool" where
  "isLog e = (case e of EvLog _ \<Rightarrow> True | _ \<Rightarrow> False)"

definition isToolResult :: "StreamEvent \<Rightarrow> bool" where
  "isToolResult e = (case e of EvToolResult _ \<Rightarrow> True | _ \<Rightarrow> False)"

definition isSummaryChunk :: "StreamEvent \<Rightarrow> bool" where
  "isSummaryChunk e = (case e of EvSummaryChunk _ \<Rightarrow> True | _ \<Rightarrow> False)"

text \<open>
  For an accepted request: the payload the handler parses, and what the dispatch of the
  handler gives (the lines logged, and the thrown value or the raw result).
\<close>

definition requestPayload :: "world \<Rightarrow> query \<Rightarrow> payload" where
  "requestPayload w req = the (JSON_parse w (the (q_payload req)))"

definition handlerDispatch :: "world \<Rightarrow> query \<Rightarrow> jsstring list \<times> (thrown + jsstring)" where
  "handlerDispatch w req = dispatchTool w (the (q_tool req)) (requestPayload w req) True"

definition requestDescription :: "query \<Rightarrow> jsstring" where
  "requestDescription req =
     (if truthy (q_description req) then the (q_description req) else lit ''Execute task'')"

text \<open>
  \<open>precededBy P Q es\<close>: no event with \<open>Q\<close> comes before the first event with \<open>P\<close>.
\<close>

fun precededBy :: "('a \<Rightarrow> bool) \<Rightarrow> ('a \<Rightarrow> bool) \<Rightarrow> 'a list \<Rightarrow> bool" where
  "precededBy P Q [] = True"
| "precededBy P Q (e # es) = (\<not> Q e \<and> (P e \<or> precededBy P Q es))"

definition isDone :: "StreamEvent \<Rightarrow> bool" where
  "isDone e = (case e of EvDone _ \<Rightarrow> True | _ \<Rightarrow> False)"

text \<open>The contents of the summary chunks of an event list, joined, and its log lines.\<close>

fun chunksOf :: "StreamEvent list \<Rightarrow> jsstring" where
  "chunksOf [] = []"
| "chunksOf (e # es) = (case e of EvSummaryChunk c \<Rightarrow> c @ chunksOf es | _ \<Rightarrow> chunksOf es)"

fun logsOf :: "StreamEvent list \<Rightarrow> jsstring list" where
  "logsOf [] = []"
| "logsOf (e # es) = (case e of EvLog m \<Rightarrow> m # logsOf es | _ \<Rightarrow> logsOf es)"

text \<open>
  What the callback of \<open>executeTaskInternal\<close> does to one card of its task at an event,
  and what a whole execution does to it: the card is set to \<open>executing\<close> with an empty
  result, then the delivered events are applied in order.
\<close>

definition taskStep :: "StreamEvent \<Rightarrow> Task \<Rightarrow> Task" where
  "taskStep event t =
     (case event of
        EvStart _ _ \<Rightarrow> t
      | EvLog message \<Rightarrow>
          t\<lparr>t_logs := Some ((case t_logs t of None \<Rightarrow> [] | Some ls \<Rightarrow> ls) @ [message])\<rparr>
      | EvToolResult _ \<Rightarrow> t
      | EvSummaryChunk content \<Rightarrow>
          t\<lparr>t_result := Some ((if truthy (t_result t) then the (t_result t) else []) @ content)\<rparr>
      | EvDone _ \<Rightarrow> t\<lparr>t_status := success\<rparr>
      | EvError message \<Rightarrow> t\<lparr>t_status := failed, t_error := Some message\<rparr>)"

definition runTask :: "StreamEvent list \<Rightarrow> Task \<Rightarrow> Task" where
  "runTask events t = foldl (\<lambda>t e. taskStep e t) t events"

definition taskRequest :: "Task \<Rightarrow> ExecuteRequest" where
  "taskRequest task =
     \<lparr>r_taskId = t_id task, r_tool = t_tool task, r_payload = t_payload task,
      r_description = Some (t_description task)\<rparr>"

definition taskAfter ::
  "(query \<Rightarrow> StreamEvent list) \<Rightarrow> (payload \<Rightarrow> jsstring) \<Rightarrow> Task \<Rightarrow> Task \<Rightarrow> Task" where
  "taskAfter server stringify task t =
     runTask (streamExecuteTask server stringify (taskRequest task))
       (t\<lparr>t_status := executing, t_result := Some []\<rparr>)"

section \<open>A sample world\<close>

text \<open>
  A world to run the model in: every built-in but the terminal is enabled, the
  filesystem and the browser adapters throw, the search adapter logs one line and answers
  with its query, the github adapter answers with the previous context it was given, and
  the summarizer streams three chunks, the second without content.
\<close>

definition sampleWorld :: world where
  "sampleWorld =
     \<lparr>processEnv = Map.empty,
      CUSTOM_TOOLS = [],
      executeFilesystem = (\<lambda>p. Inl (Error (lit ''EACCES: permission denied''))),
      executeGithub = (\<lambda>p. Inr (toStringJS (getProp p (lit ''previousContext'')))),
      executeSlack = (\<lambda>p. Inr (lit ''Message sent'')),
      executeCalendar = (\<lambda>p. Inr (lit ''Event created'')),
      executeTerminal = (\<lambda>p. Inr (lit ''ok'')),
      executeBrowser = (\<lambda>p. Inl (Error (lit ''Domain not allowed''))),
      executeSearch = (\<lambda>p. ([lit ''Searching''], Inr (toStringJS (getProp p (lit ''query''))))),
      executeLeetCode = (\<lambda>p. Inr (lit ''Two Sum'')),
      executeMCPRegistry = (\<lambda>p. Inr (lit ''sqlite'')),
      executeUtility = (\<lambda>p. Inr (lit ''42'')),
      executeCustomTool = (\<lambda>p c. Inr (lit ''custom '' @ ct_name c)),
      parseURL = (\<lambda>s. if s = lit ''https://example.com/a/b''
                       then Some (lit ''example.com'', lit ''/a/b'') else None),
      JSON_parse = (\<lambda>s. if s = lit ''{}'' then Some Map.empty else None),
      streamSummarizeToolResult = (\<lambda>d t r. SummaryStream [lit ''Result: '', [], r] False),
      logTaskExecutedThrows = False\<rparr>"

definition sampleCustomTool :: "string \<Rightarrow> CustomToolConfig" where
  "sampleCustomTool n =
     \<lparr>ct_name = lit n, ct_description = lit ''a user tool'', ct_type = lit ''command'',
      ct_command = Some (lit ''echo hi''), ct_url = None, ct_method = None\<rparr>"

text \<open>
  A pending task as the planner creates it, its card among the messages, and a
  \<open>JSON.stringify\<close> for the empty payloads of these tasks.
\<close>

definition sampleTask :: "string \<Rightarrow> string \<Rightarrow> Task" where
  "sampleTask i tool =
     \<lparr>t_id = lit i, t_description = lit ''a task'', t_tool = lit tool, t_payload = Map.empty,
      t_confidence = 1, t_status = pending, t_result = None, t_error = None, t_logs = None\<rparr>"

definition sampleCard :: "Task \<Rightarrow> Message" where
  "sampleCard task =
     \<lparr>m_id = lit ''msg-'' @ t_id task, m_type = lit ''assistant'', m_content = [],
      m_task = Some task\<rparr>"

definition sampleStringify :: "payload \<Rightarrow> jsstring" where
  "sampleStringify p = lit ''{}''"

section \<open>Properties of the intent classifier and the pipeline context\<close>









text \<open>
  Claim C10. In the context \<open>updateStage\<close> returns, \<open>endTime\<close> is defined exactly when the
  new stage is \<open>Complete\<close> or \<open>Failed\<close>; an update to any other stage leaves no \<open>endTime\<close>,
  whatever was recorded before; \<open>stage\<close> and \<open>progress\<close> are the arguments, and every
  other field is carried over unchanged.
\<close>

theorem updateStage_endTime:
  "(endTime (updateStage c s p now) \<noteq> None \<longleftrightarrow> (s = Complete \<or> s = Failed)) \<and>
   (s \<noteq> Complete \<and> s \<noteq> Failed \<longrightarrow> endTime (updateStage c s p now) = None) \<and>
   stage (updateStage c s p now) = s \<and>
   progress (updateStage c s p now) = p \<and>
   originalQuery (updateStage c s p now) = originalQuery c \<and>
   intent (updateStage c s p now) = intent c \<and>
   decomposedQueries (updateStage c s p now) = decomposedQueries c \<and>
   selectedTool (updateStage c s p now) = selectedTool c \<and>
   taskResults (updateStage c s p now) = taskResults c \<and>
   finalAnswer (updateStage c s p now) = finalAnswer c \<and>
   citations (updateStage c s p now) = citations c \<and>
   startTime (updateStage c s p now) = startTime c"
  by (simp add: updateStage_def)

theorem updateStage_endTime_witness:
  "endTime (updateStage
      \<lparr>originalQuery = lit ''q'', intent = General, decomposedQueries = [lit ''q''],
       selectedTool = [], taskResults = [], finalAnswer = [], citations = [],
       stage = Complete, progress = 100, startTime = 1000, endTime = Some 2000\<rparr>
      Executing 50 3000) = None \<and>
   endTime (updateStage
      \<lparr>originalQuery = lit ''q'', intent = General, decomposedQueries = [lit ''q''],
       selectedTool = [], taskResults = [], finalAnswer = [], citations = [],
       stage = Executing, progress = 50, startTime = 1000, endTime = None\<rparr>
      Failed 60 3000) = Some 3000"
proof -
  let ?c = "\<lparr>originalQuery = lit ''q'', intent = General, decomposedQueries = [lit ''q''],
       selectedTool = [], taskResults = [], finalAnswer = [], citations = [],
       stage = Complete, progress = 100, startTime = 1000, endTime = Some 2000\<rparr>"
  have "Executing \<noteq> Complete \<and> Executing \<noteq> Failed" by simp
  then have 1: "endTime (updateStage ?c Executing 50 3000) = None"
    using updateStage_endTime[of ?c Executing 50 3000] by blast
  have 2: "endTime (updateStage
      \<lparr>originalQuery = lit ''q'', intent = General, decomposedQueries = [lit ''q''],
       selectedTool = [], taskResults = [], finalAnswer = [], citations = [],
       stage = Executing, progress = 50, startTime = 1000, endTime = None\<rparr>
      Failed 60 3000) = Some 3000"
    by (simp add: updateStage_def)
  show ?thesis using 1 2 by simp
qed

section \<open>Properties of the dispatcher\<close>

lemma dispatchTool_custom:
  "findCustomTool w tool = Some c \<Longrightarrow>
   dispatchTool w tool payload onLog =
     ([], executeCustomTool w ([lit ''toolName'' \<mapsto> JStr tool] ++ payload) c)"
  by (simp add: dispatchTool_def findCustomTool_def Let_def)

lemma findCustomTool_present:
  "tool \<in> ct_name ` set (CUSTOM_TOOLS w) \<Longrightarrow>
   \<exists>c. findCustomTool w tool = Some c \<and> c \<in> set (CUSTOM_TOOLS w) \<and> ct_name c = tool"
  unfolding findCustomTool_def
  by (cases "find (\<lambda>t. ct_name t = tool) (CUSTOM_TOOLS w)")
     (auto simp: find_None_iff find_Some_iff)

text \<open>
  Claim C9. For every tool name in the loaded custom tools, \<open>dispatchTool\<close> runs the custom
  adapter, on the payload with \<open>toolName\<close> added and with the first configuration of that
  name; nothing in this depends on the built-in table, so it holds when an enabled
  built-in has the name and when a disabled one has it.
\<close>

theorem custom_tool_shadows_builtin:
  assumes "tool \<in> ct_name ` set (CUSTOM_TOOLS w)"
  shows "\<exists>c. findCustomTool w tool = Some c \<and> c \<in> set (CUSTOM_TOOLS w) \<and> ct_name c = tool \<and>
             dispatchTool w tool payload onLog =
               ([], executeCustomTool w ([lit ''toolName'' \<mapsto> JStr tool] ++ payload) c)"
  using findCustomTool_present[OF assms] dispatchTool_custom by blast

theorem custom_tool_shadows_builtin_witness:
  "toolEnabled
     (sampleWorld\<lparr>CUSTOM_TOOLS := [sampleCustomTool ''browser'', sampleCustomTool ''terminal'']\<rparr>)
     (lit ''browser'') \<and>
   dispatchTool
     (sampleWorld\<lparr>CUSTOM_TOOLS := [sampleCustomTool ''browser'', sampleCustomTool ''terminal'']\<rparr>)
     (lit ''browser'') Map.empty True = ([], Inr (lit ''custom browser'')) \<and>
   \<not> toolEnabled
     (sampleWorld\<lparr>CUSTOM_TOOLS := [sampleCustomTool ''browser'', sampleCustomTool ''terminal'']\<rparr>)
     (lit ''terminal'') \<and>
   dispatchTool
     (sampleWorld\<lparr>CUSTOM_TOOLS := [sampleCustomTool ''browser'', sampleCustomTool ''terminal'']\<rparr>)
     (lit ''terminal'') Map.empty True = ([], Inr (lit ''custom terminal''))"
proof -
  let ?w = "sampleWorld\<lparr>CUSTOM_TOOLS := [sampleCustomTool ''browser'', sampleCustomTool ''terminal'']\<rparr>"
  have b: "lit ''browser'' \<in> ct_name ` set (CUSTOM_TOOLS ?w)"
    by (simp add: sampleCustomTool_def)
  have t: "lit ''terminal'' \<in> ct_name ` set (CUSTOM_TOOLS ?w)"
    by (simp add: sampleCustomTool_def)
  have eb: "toolEnabled ?w (lit ''browser'')"
    by (simp add: toolEnabled_def sampleWorld_def TOOL_DEFINITIONS_def lit_def)
  have et: "\<not> toolEnabled ?w (lit ''terminal'')"
    by (simp add: toolEnabled_def sampleWorld_def TOOL_DEFINITIONS_def lit_def)
  from custom_tool_shadows_builtin[OF b, of Map.empty True]
  have 1: "dispatchTool ?w (lit ''browser'') Map.empty True = ([], Inr (lit ''custom browser''))"
    by (auto simp: findCustomTool_def sampleCustomTool_def sampleWorld_def lit_def)
  from custom_tool_shadows_builtin[OF t, of Map.empty True]
  have 2: "dispatchTool ?w (lit ''terminal'') Map.empty True = ([], Inr (lit ''custom terminal''))"
    by (auto simp: findCustomTool_def sampleCustomTool_def sampleWorld_def lit_def)
  show ?thesis using eb et 1 2 by simp
qed

lemma toolEnabled_names:
  "toolEnabled w tool \<Longrightarrow>
   tool \<in> {lit ''filesystem'', lit ''github'', lit ''slack'', lit ''calendar'', lit ''terminal'',
            lit ''browser'', lit ''search'', lit ''leetcode'', lit ''mcp_registry'', lit ''utility''}"
  unfolding toolEnabled_def TOOL_DEFINITIONS_def
  by (simp split: if_splits)

lemma dispatchTool_builtin:
  assumes "findCustomTool w tool = None" and "toolEnabled w tool"
  shows "dispatchTool w tool payload onLog =
     (if tool = lit ''filesystem'' then ([], executeFilesystem w payload)
      else if tool = lit ''github'' then ([], executeGithub w payload)
      else if tool = lit ''slack'' then ([], executeSlack w payload)
      else if tool = lit ''calendar'' then ([], executeCalendar w payload)
      else if tool = lit ''terminal'' then ([], executeTerminal w payload)
      else if tool = lit ''browser'' then
        (case executeBrowser w payload of
           Inr r \<Rightarrow> ([], Inr r)
         | Inl error \<Rightarrow> browserFallback w payload onLog)
      else if tool = lit ''search'' then
        (let (searchLogs, r) = executeSearch w payload
         in (if onLog then searchLogs else [], r))
      else if tool = lit ''leetcode'' then ([], executeLeetCode w payload)
      else if tool = lit ''mcp_registry'' then ([], executeMCPRegistry w payload)
      else if tool = lit ''utility'' then ([], executeUtility w payload)
      else ([], Inl (Error (lit ''Unknown tool: '' @ tool))))"
proof -
  have c: "find (\<lambda>t. ct_name t = tool) (CUSTOM_TOOLS w) = None"
    using assms(1) by (simp add: findCustomTool_def)
  obtain d where d: "find (\<lambda>t. td_name t = tool) (TOOL_DEFINITIONS (processEnv w)) = Some d"
    "td_enabled d"
    using assms(2) unfolding toolEnabled_def by (auto split: option.splits)
  show ?thesis
    unfolding dispatchTool_def Let_def c d(1) using d(2) by simp
qed


lemma dispatchTool_other_builtin:
  assumes "tool \<noteq> lit ''browser''" and "findCustomTool w tool = None" and "toolEnabled w tool"
  shows "\<exists>f. adapterOf w tool = Some f \<and> snd (dispatchTool w tool payload onLog) = f payload"
proof -
  note d = dispatchTool_builtin[OF assms(2,3), of payload onLog]
  from toolEnabled_names[OF assms(3)] assms(1)
  consider "tool = lit ''filesystem''" | "tool = lit ''github''" | "tool = lit ''slack''" | "tool = lit ''calendar''" | "tool = lit ''terminal''" | "tool = lit ''search''" | "tool = lit ''leetcode''" | "tool = lit ''mcp_registry''" | "tool = lit ''utility''"
    by auto
  then show ?thesis
  proof cases
    case 1
    show ?thesis unfolding d adapterOf_def by (simp add: 1 lit_def split: prod.splits)
  next
    case 2
    show ?thesis unfolding d adapterOf_def by (simp add: 2 lit_def split: prod.splits)
  next
    case 3
    show ?thesis unfolding d adapterOf_def by (simp add: 3 lit_def split: prod.splits)
  next
    case 4
    show ?thesis unfolding d adapterOf_def by (simp add: 4 lit_def split: prod.splits)
  next
    case 5
    show ?thesis unfolding d adapterOf_def by (simp add: 5 lit_def split: prod.splits)
  next
    case 6
    show ?thesis unfolding d adapterOf_def by (simp add: 6 lit_def split: prod.splits)
  next
    case 7
    show ?thesis unfolding d adapterOf_def by (simp add: 7 lit_def split: prod.splits)
  next
    case 8
    show ?thesis unfolding d adapterOf_def by (simp add: 8 lit_def split: prod.splits)
  next
    case 9
    show ?thesis unfolding d adapterOf_def by (simp add: 9 lit_def split: prod.splits)
  qed
qed

lemma dispatchTool_browser_fallback:
  assumes "findCustomTool w (lit ''browser'') = None" and "toolEnabled w (lit ''browser'')"
    and "executeBrowser w payload = Inl e"
  shows "dispatchTool w (lit ''browser'') payload onLog = browserFallback w payload onLog"
  using assms(3) unfolding dispatchTool_builtin[OF assms(1,2)] by (simp add: lit_def)

text \<open>
  Claim C3, as amended. When the browser adapter throws (the browser being an enabled
  built-in that no custom tool shadows), \<open>dispatchTool\<close> does not throw what the adapter
  threw: it calls the search adapter with action \<open>search\<close>, limit 5, deep fetch on and the
  query derived from the URL, and returns the search result behind the marker
  \<open>[Fallback from browser to search]\<close> and two line feeds; what the fallback search throws
  is thrown. The query is the hostname, a space and the pathname with every slash turned
  into a space, trimmed at both ends (runs of spaces inside it stay), or the \<open>url\<close> value
  itself when it does not parse. Every other enabled built-in that no custom tool shadows
  gives exactly the outcome of its adapter.
\<close>

theorem browser_failure_falls_back_to_search:
  assumes "findCustomTool w (lit ''browser'') = None" and "toolEnabled w (lit ''browser'')"
    and "executeBrowser w payload = Inl e"
  shows "snd (dispatchTool w (lit ''browser'') payload onLog) =
           (case snd (executeSearch w
                        [lit ''action'' \<mapsto> JStr (lit ''search''),
                         lit ''query'' \<mapsto> fallbackQuery w (getProp payload (lit ''url'')),
                         lit ''limit'' \<mapsto> JNum 5, lit ''deepFetch'' \<mapsto> JBool True]) of
              Inl e' \<Rightarrow> Inl e'
            | Inr r \<Rightarrow> Inr (lit ''[Fallback from browser to search]'' @ [0x0A, 0x0A] @ r)) \<and>
         (\<forall>h p. parseURL w (toStringJS (getProp payload (lit ''url''))) = Some (h, p) \<longrightarrow>
                fallbackQuery w (getProp payload (lit ''url'')) =
                  JStr (trim (h @ lit '' '' @ slashesToSpaces p))) \<and>
         (parseURL w (toStringJS (getProp payload (lit ''url''))) = None \<longrightarrow>
            fallbackQuery w (getProp payload (lit ''url'')) = getProp payload (lit ''url'')) \<and>
         (\<forall>tool. tool \<noteq> lit ''browser'' \<and> findCustomTool w tool = None \<and> toolEnabled w tool \<longrightarrow>
            (\<exists>f. adapterOf w tool = Some f \<and> snd (dispatchTool w tool payload onLog) = f payload))"
proof -
  have 1: "snd (dispatchTool w (lit ''browser'') payload onLog) =
           (case snd (executeSearch w
                        [lit ''action'' \<mapsto> JStr (lit ''search''),
                         lit ''query'' \<mapsto> fallbackQuery w (getProp payload (lit ''url'')),
                         lit ''limit'' \<mapsto> JNum 5, lit ''deepFetch'' \<mapsto> JBool True]) of
              Inl e' \<Rightarrow> Inl e'
            | Inr r \<Rightarrow> Inr (lit ''[Fallback from browser to search]'' @ [0x0A, 0x0A] @ r))"
    unfolding dispatchTool_browser_fallback[OF assms] browserFallback_def fallbackPayload_def Let_def
    by (simp split: prod.splits)
  have 2: "\<forall>h p. parseURL w (toStringJS (getProp payload (lit ''url''))) = Some (h, p) \<longrightarrow>
                fallbackQuery w (getProp payload (lit ''url'')) =
                  JStr (trim (h @ lit '' '' @ slashesToSpaces p))"
    by (simp add: fallbackQuery_def)
  have 3: "parseURL w (toStringJS (getProp payload (lit ''url''))) = None \<longrightarrow>
            fallbackQuery w (getProp payload (lit ''url'')) = getProp payload (lit ''url'')"
    by (simp add: fallbackQuery_def)
  have 4: "\<forall>tool. tool \<noteq> lit ''browser'' \<and> findCustomTool w tool = None \<and> toolEnabled w tool \<longrightarrow>
            (\<exists>f. adapterOf w tool = Some f \<and> snd (dispatchTool w tool payload onLog) = f payload)"
    using dispatchTool_other_builtin by blast
  show ?thesis using 1 2 3 4 by blast
qed

theorem browser_failure_falls_back_to_search_witness:
  "findCustomTool sampleWorld (lit ''browser'') = None \<and>
   toolEnabled sampleWorld (lit ''browser'') \<and>
   executeBrowser sampleWorld [lit ''url'' \<mapsto> JStr (lit ''https://example.com/a/b'')] =
     Inl (Error (lit ''Domain not allowed'')) \<and>
   snd (dispatchTool sampleWorld (lit ''browser'')
          [lit ''url'' \<mapsto> JStr (lit ''https://example.com/a/b'')] False) =
     Inr (lit ''[Fallback from browser to search]'' @ [0x0A, 0x0A] @ lit ''example.com  a b'') \<and>
   snd (dispatchTool (sampleWorld\<lparr>executeSearch := (\<lambda>p. ([], Inl (Error (lit ''offline''))))\<rparr>)
          (lit ''browser'') [lit ''url'' \<mapsto> JStr (lit ''https://example.com/a/b'')] False) =
     Inl (Error (lit ''offline'')) \<and>
   snd (dispatchTool sampleWorld (lit ''filesystem'')
          [lit ''url'' \<mapsto> JStr (lit ''https://example.com/a/b'')] False) =
     Inl (Error (lit ''EACCES: permission denied''))"
proof -
  let ?p = "[lit ''url'' \<mapsto> JStr (lit ''https://example.com/a/b'')]"
  let ?w = "sampleWorld\<lparr>executeSearch := (\<lambda>p. ([], Inl (Error (lit ''offline''))))\<rparr>"
  have c: "findCustomTool sampleWorld (lit ''browser'') = None"
    by (simp add: findCustomTool_def sampleWorld_def)
  have e: "toolEnabled sampleWorld (lit ''browser'')"
    by (simp add: toolEnabled_def sampleWorld_def TOOL_DEFINITIONS_def lit_def)
  have b: "executeBrowser sampleWorld ?p = Inl (Error (lit ''Domain not allowed''))"
    by (simp add: sampleWorld_def)
  have c': "findCustomTool ?w (lit ''browser'') = None"
    by (simp add: findCustomTool_def sampleWorld_def)
  have e': "toolEnabled ?w (lit ''browser'')"
    by (simp add: toolEnabled_def sampleWorld_def TOOL_DEFINITIONS_def lit_def)
  have b': "executeBrowser ?w ?p = Inl (Error (lit ''Domain not allowed''))"
    by (simp add: sampleWorld_def)
  have q: "fallbackQuery sampleWorld (getProp ?p (lit ''url'')) = JStr (lit ''example.com  a b'')"
    by (simp add: fallbackQuery_def sampleWorld_def getProp_def toStringJS_def trim_def
        slashesToSpaces_def isSpace_def lit_def)
  note T = browser_failure_falls_back_to_search[OF c e b, of False]
  have 1: "snd (dispatchTool sampleWorld (lit ''browser'') ?p False) =
     Inr (lit ''[Fallback from browser to search]'' @ [0x0A, 0x0A] @ lit ''example.com  a b'')"
    using T[THEN conjunct1, unfolded q]
    by (simp add: sampleWorld_def getProp_def toStringJS_def lit_def)
  have 2: "snd (dispatchTool ?w (lit ''browser'') ?p False) = Inl (Error (lit ''offline''))"
    using browser_failure_falls_back_to_search[OF c' e' b', of False, THEN conjunct1]
    by (simp add: sampleWorld_def)
  have f: "lit ''filesystem'' \<noteq> lit ''browser'' \<and>
           findCustomTool sampleWorld (lit ''filesystem'') = None \<and>
           toolEnabled sampleWorld (lit ''filesystem'')"
    by (simp add: findCustomTool_def toolEnabled_def sampleWorld_def TOOL_DEFINITIONS_def lit_def)
  have "\<exists>g. adapterOf sampleWorld (lit ''filesystem'') = Some g \<and>
           snd (dispatchTool sampleWorld (lit ''filesystem'') ?p False) = g ?p"
    using T[THEN conjunct2, THEN conjunct2, THEN conjunct2, THEN spec, of "lit ''filesystem''"] f
    by (rule mp)
  then have 3: "snd (dispatchTool sampleWorld (lit ''filesystem'') ?p False) =
     Inl (Error (lit ''EACCES: permission denied''))"
    by (auto simp: adapterOf_def sampleWorld_def)
  show ?thesis using c e b 1 2 3 by simp
qed

text \<open>
  Claim C3 as stated says that the query is whitespace-collapsed. For the URL
  \<open>https://example.com/a/b\<close> the query is \<open>example.com\<close>, two spaces, \<open>a b\<close>: the pathname
  begins with a slash, which becomes a second space behind the one the template puts
  between hostname and pathname.
\<close>

theorem fallback_query_keeps_inner_spaces:
  "dispatchTool sampleWorld (lit ''browser'')
     [lit ''url'' \<mapsto> JStr (lit ''https://example.com/a/b'')] True =
   ([lit ''[Dispatcher] Browser failed for https://example.com/a/b, falling back to search...'',
     lit ''[Dispatcher] Searching for: '' @ [0x22] @ lit ''example.com  a b'' @ [0x22],
     lit ''Searching''],
    Inr (lit ''[Fallback from browser to search]'' @ [0x0A, 0x0A] @ lit ''example.com  a b''))"
  by (simp add: dispatchTool_def sampleWorld_def TOOL_DEFINITIONS_def browserFallback_def
      fallbackQuery_def fallbackPayload_def getProp_def toStringJS_def trim_def slashesToSpaces_def
      isSpace_def lit_def Let_def)

section \<open>Properties of chained dispatch\<close>

lemma enrichedPayload_cases:
  "(\<forall>p. previousResult = Some p \<and> p \<noteq> [] \<longrightarrow>
      enrichedPayload payload previousResult = payload(lit ''previousContext'' \<mapsto> JStr p)) \<and>
   (previousResult = None \<or> previousResult = Some [] \<longrightarrow>
      enrichedPayload payload previousResult = payload)"
  by (auto simp: enrichedPayload_def truthy_def)

text \<open>
  Claim C4, as amended. \<open>dispatchToolWithChaining\<close> never throws: for every tool, payload,
  previous result and next tool it returns a result object for the tool. When the dispatch
  throws, the object is \<open>{success: false, tool, result}\<close> with the message of the error
  (\<open>Unknown error\<close> for a thrown value that is not an \<open>Error\<close>); when it returns, the object
  has \<open>success: true\<close> and the raw result. A previous result that is present and not empty
  is merged into the payload under the key \<open>previousContext\<close> before the dispatch; an absent
  or empty one leaves the payload as it is.
\<close>

theorem dispatchToolWithChaining_never_throws:
  "\<exists>r. snd (dispatchToolWithChaining w tool payload previousResult nextTool onLog) = Inr r \<and>
       cr_tool r = tool \<and>
       (\<forall>e. snd (dispatchTool w tool (enrichedPayload payload previousResult) onLog) = Inl e \<longrightarrow>
          r = \<lparr>cr_success = False, cr_tool = tool,
               cr_result = errorMessage e (lit ''Unknown error''),
               cr_fallbackUsed = None, cr_transformedForNext = None\<rparr>) \<and>
       (\<forall>m. snd (dispatchTool w tool (enrichedPayload payload previousResult) onLog) =
              Inl (Error m) \<longrightarrow> \<not> cr_success r \<and> cr_result r = m) \<and>
       (\<forall>res. snd (dispatchTool w tool (enrichedPayload payload previousResult) onLog) =
              Inr res \<longrightarrow> cr_success r \<and> cr_result r = res) \<and>
       (\<forall>p. previousResult = Some p \<and> p \<noteq> [] \<longrightarrow>
          enrichedPayload payload previousResult = payload(lit ''previousContext'' \<mapsto> JStr p)) \<and>
       (previousResult = None \<or> previousResult = Some [] \<longrightarrow>
          enrichedPayload payload previousResult = payload)"
proof -
  obtain logs tried where
    d: "dispatchTool w tool (enrichedPayload payload previousResult) onLog = (logs, tried)"
    by (cases "dispatchTool w tool (enrichedPayload payload previousResult) onLog")
  note ep = enrichedPayload_cases[of previousResult payload]
  show ?thesis
  proof (cases tried)
    case (Inl e)
    have "snd (dispatchToolWithChaining w tool payload previousResult nextTool onLog) =
            Inr (chainedFailure tool e)"
      by (simp add: dispatchToolWithChaining_def d Inl)
    then show ?thesis
      using ep d Inl by (simp add: chainedFailure_def errorMessage_def)
  next
    case (Inr res)
    have "snd (dispatchToolWithChaining w tool payload previousResult nextTool onLog) =
            Inr (chainedSuccess tool res nextTool)"
      by (simp add: dispatchToolWithChaining_def d Inr)
    then show ?thesis
      using ep d Inr by (simp add: chainedSuccess_def)
  qed
qed

theorem dispatchToolWithChaining_never_throws_witness:
  "(cr_success (projr (snd (dispatchToolWithChaining sampleWorld (lit ''github'')
      Map.empty (Some (lit ''context'')) None False))) \<and>
    cr_result (projr (snd (dispatchToolWithChaining sampleWorld (lit ''github'')
      Map.empty (Some (lit ''context'')) None False))) = lit ''context'') \<and>
   snd (dispatchToolWithChaining sampleWorld (lit ''filesystem'') Map.empty None None False) =
     Inr \<lparr>cr_success = False, cr_tool = lit ''filesystem'',
          cr_result = lit ''EACCES: permission denied'',
          cr_fallbackUsed = None, cr_transformedForNext = None\<rparr>"
proof -
  let ?c = "Some (lit ''context'')"
  note G = dispatchToolWithChaining_never_throws[of sampleWorld "lit ''github''" Map.empty
      ?c None False]
  have ne: "?c = Some (lit ''context'') \<and> lit ''context'' \<noteq> []"
    by (simp add: lit_def)
  have e: "enrichedPayload Map.empty ?c = [lit ''previousContext'' \<mapsto> JStr (lit ''context'')]"
    using G ne by blast
  have g: "snd (dispatchTool sampleWorld (lit ''github'') (enrichedPayload Map.empty ?c) False) =
             Inr (lit ''context'')"
    unfolding e
    by (simp add: dispatchTool_def sampleWorld_def TOOL_DEFINITIONS_def getProp_def
        toStringJS_def lit_def)
  obtain r where r: "snd (dispatchToolWithChaining sampleWorld (lit ''github'') Map.empty
          ?c None False) = Inr r" "cr_tool r = lit ''github''" "cr_success r"
      "cr_result r = lit ''context''"
    using G g by blast
  have 1: "cr_success (projr (snd (dispatchToolWithChaining sampleWorld (lit ''github'')
             Map.empty ?c None False))) \<and>
           cr_result (projr (snd (dispatchToolWithChaining sampleWorld (lit ''github'')
             Map.empty ?c None False))) = lit ''context''"
    using r by simp
  note F = dispatchToolWithChaining_never_throws[of sampleWorld "lit ''filesystem''" Map.empty
      None None False]
  have f: "snd (dispatchTool sampleWorld (lit ''filesystem'') (enrichedPayload Map.empty None)
             False) = Inl (Error (lit ''EACCES: permission denied''))"
    by (simp add: enrichedPayload_def truthy_def dispatchTool_def sampleWorld_def
        TOOL_DEFINITIONS_def lit_def)
  obtain r' where r': "snd (dispatchToolWithChaining sampleWorld (lit ''filesystem'') Map.empty
          None None False) = Inr r'"
      "r' = \<lparr>cr_success = False, cr_tool = lit ''filesystem'',
             cr_result = errorMessage (Error (lit ''EACCES: permission denied''))
                           (lit ''Unknown error''),
             cr_fallbackUsed = None, cr_transformedForNext = None\<rparr>"
    using F f by blast
  have 2: "snd (dispatchToolWithChaining sampleWorld (lit ''filesystem'') Map.empty None None
             False) =
     Inr \<lparr>cr_success = False, cr_tool = lit ''filesystem'',
          cr_result = lit ''EACCES: permission denied'',
          cr_fallbackUsed = None, cr_transformedForNext = None\<rparr>"
    using r' by (simp add: errorMessage_def)
  show ?thesis using 1 2 by simp
qed

text \<open>
  Claim C4 as stated merges every previous result that is present. The empty string is
  a present previous result and is not merged: the test is the truthiness of
  \<open>previousResult\<close>, so the adapter finds no \<open>previousContext\<close> in its payload.
\<close>

theorem empty_previousResult_not_merged:
  "enrichedPayload Map.empty (Some []) (lit ''previousContext'') = None \<and>
   snd (dispatchToolWithChaining sampleWorld (lit ''github'') Map.empty (Some []) None False) =
     Inr \<lparr>cr_success = True, cr_tool = lit ''github'', cr_result = lit ''undefined'',
          cr_fallbackUsed = None, cr_transformedForNext = None\<rparr>"
  by (simp add: enrichedPayload_def truthy_def dispatchToolWithChaining_def chainedSuccess_def
      dispatchTool_def sampleWorld_def TOOL_DEFINITIONS_def getProp_def toStringJS_def
      startsWith_def lit_def)

text \<open>
  Claim C5. The transform of a search or browser result for the filesystem is meant to
  strip the emoji glyphs and the bold markers and to cut the text to 10000 code units.
  The alternatives of its first regular expression are not the glyphs, though: the glyph
  U+1F50D, the surrogate pair \<open>D83D DD0D\<close> with which the search adapter opens its result,
  stays in the text, while the bold markers behind it are removed.
\<close>

theorem transform_keeps_search_emoji:
  "transformResultForNext ([0xD83D, 0xDD0D] @ lit '' **Hi**'') (lit ''search'') (lit ''filesystem'') =
     [0xD83D, 0xDD0D] @ lit '' Hi''"
  by (simp add: transformResultForNext_def emojiPatterns_def lit_def)

text \<open>
  The other parts of the transform table hold: for the filesystem the text is cut to
  10000 code units and has no bold marker left, for slack it is the first ten non-blank
  lines, and for every other pair of tools it is unchanged.
\<close>

lemma removeAll_stars_Cons:
  "removeAll [lit ''**''] (c # cs) =
     (if c = 0x2A \<and> (\<exists>t. cs = 0x2A # t) then removeAll [lit ''**''] (tl cs)
      else c # removeAll [lit ''**''] cs)"
  by (cases cs) (auto simp: lit_def drop_Suc)

lemma removeAll_stars_hd:
  "removeAll [lit ''**''] s = 0x2A # r \<Longrightarrow> \<exists>t. s = 0x2A # t"
proof (induction "length s" arbitrary: s r rule: less_induct)
  case less
  show ?case
  proof (cases s)
    case Nil
    with less.prems show ?thesis by simp
  next
    case (Cons c cs)
    show ?thesis
    proof (cases "c = 0x2A")
      case True
      then show ?thesis using Cons by simp
    next
      case False
      then show ?thesis using less.prems Cons
        by (simp del: removeAll.simps add: removeAll_stars_Cons)
    qed
  qed
qed

lemma removeAll_stars_none: "\<not> sublist (lit ''**'') (removeAll [lit ''**''] s)"
proof (induction "length s" arbitrary: s rule: less_induct)
  case less
  show ?case
  proof (cases s)
    case Nil
    then show ?thesis by (simp add: lit_def)
  next
    case (Cons c cs)
    show ?thesis
    proof (cases "c = 0x2A \<and> (\<exists>t. cs = 0x2A # t)")
      case True
      then obtain t where t: "cs = 0x2A # t" by blast
      have "length t < length s" using Cons t by simp
      from less.hyps[OF this] show ?thesis
        using True t Cons by (simp del: removeAll.simps add: removeAll_stars_Cons)
    next
      case False
      have ih: "\<not> sublist (lit ''**'') (removeAll [lit ''**''] cs)"
        using less.hyps[of cs] Cons by simp
      have np: "\<not> prefix (lit ''**'') (c # removeAll [lit ''**''] cs)"
      proof
        assume "prefix (lit ''**'') (c # removeAll [lit ''**''] cs)"
        then obtain r where "c = 0x2A" "removeAll [lit ''**''] cs = 0x2A # r"
          by (auto simp: lit_def prefix_def)
        with removeAll_stars_hd[of cs r] False show False by blast
      qed
      have "removeAll [lit ''**''] s = c # removeAll [lit ''**''] cs"
        using False Cons by (auto simp del: removeAll.simps simp add: removeAll_stars_Cons)
      then show ?thesis using ih np
        by (simp del: removeAll.simps add: sublist_Cons_right)
    qed
  qed
qed

lemma transformResultForNext_filesystem:
  assumes "fromTool = lit ''search'' \<or> fromTool = lit ''browser''"
  shows "length (transformResultForNext result fromTool (lit ''filesystem'')) \<le> 10000 \<and>
         \<not> includesStr (transformResultForNext result fromTool (lit ''filesystem'')) (lit ''**'')"
proof -
  let ?r = "removeAll [lit ''**''] (removeAll emojiPatterns result)"
  have t: "transformResultForNext result fromTool (lit ''filesystem'') = take 10000 ?r"
    using assms by (auto simp: transformResultForNext_def)
  have "sublist (take 10000 ?r) ?r"
    by (rule prefix_imp_sublist) (rule take_is_prefix)
  then have "\<not> sublist (lit ''**'') (take 10000 ?r)"
    using removeAll_stars_none[of "removeAll emojiPatterns result"]
    by (meson sublist_order.order.trans)
  then show ?thesis by (simp add: t includesStr_def)
qed

lemma transformResultForNext_slack:
  "fromTool = lit ''search'' \<or> fromTool = lit ''browser'' \<Longrightarrow>
   transformResultForNext result fromTool (lit ''slack'') =
     joinLines (take 10 (filter (\<lambda>l. trim l \<noteq> []) (splitLines result)))"
  by (auto simp: transformResultForNext_def lit_def)

lemma transformResultForNext_identity:
  "\<not> ((fromTool = lit ''search'' \<or> fromTool = lit ''browser'') \<and>
       (toTool = lit ''filesystem'' \<or> toTool = lit ''slack'')) \<Longrightarrow>
   transformResultForNext result fromTool toTool = result"
  by (auto simp: transformResultForNext_def)

section \<open>Properties of the streaming execute endpoint\<close>

lemma precededBy_nth:
  "precededBy P Q xs \<Longrightarrow> i < length xs \<Longrightarrow> Q (xs ! i) \<Longrightarrow> \<exists>j<i. P (xs ! j)"
proof (induction xs arbitrary: i)
  case Nil
  then show ?case by simp
next
  case (Cons e es)
  show ?case
  proof (cases i)
    case 0
    with Cons.prems show ?thesis by simp
  next
    case (Suc k)
    show ?thesis
    proof (cases "P e")
      case True
      then have "0 < i \<and> P ((e # es) ! 0)" using Suc by simp
      then show ?thesis by blast
    next
      case False
      with Cons.prems Suc have "precededBy P Q es" "k < length es" "Q (es ! k)" by simp_all
      from Cons.IH[OF this] obtain j where "j < k" "P (es ! j)" by blast
      then have "Suc j < i \<and> P ((e # es) ! Suc j)" using Suc by simp
      then show ?thesis by blast
    qed
  qed
qed

lemma precededBy_none: "\<forall>x \<in> set xs. \<not> Q x \<Longrightarrow> precededBy P Q xs"
  by (induction xs) simp_all

lemma precededBy_append:
  "\<forall>x \<in> set xs. \<not> Q x \<Longrightarrow> precededBy P Q ys \<Longrightarrow> precededBy P Q (xs @ ys)"
  by (induction xs) simp_all

lemma summaryEvents_shape:
  "\<exists>sent r. summaryEvents w d t raw = map EvSummaryChunk sent @ [EvDone r]"
proof (cases "streamSummarizeToolResult w d t raw")
  case SummaryThrows
  then have "summaryEvents w d t raw = map EvSummaryChunk [raw] @ [EvDone raw]"
    by (simp add: summaryEvents_def)
  then show ?thesis by blast
next
  case (SummaryStream chunks thr)
  let ?sent = "filter (\<lambda>content. content \<noteq> []) chunks"
  show ?thesis
  proof (cases "thr \<or> logTaskExecutedThrows w")
    case True
    then have "summaryEvents w d t raw = map EvSummaryChunk (?sent @ [raw]) @ [EvDone raw]"
      using SummaryStream by (simp add: summaryEvents_def Let_def)
    then show ?thesis by blast
  next
    case False
    then have "summaryEvents w d t raw = map EvSummaryChunk ?sent @ [EvDone (concat ?sent)]"
      using SummaryStream by (simp add: summaryEvents_def Let_def)
    then show ?thesis by blast
  qed
qed

lemma stream_execute_rejected:
  "\<not> accepted w req \<Longrightarrow> \<exists>m. stream_execute w req = [EvError m]"
  by (auto simp: stream_execute_def accepted_def Let_def split: option.splits)

lemma stream_execute_accepted:
  assumes "accepted w req"
  shows "stream_execute w req =
           EvStart (the (q_taskId req)) (the (q_tool req)) #
           map EvLog (fst (handlerDispatch w req)) @
           (case snd (handlerDispatch w req) of
              Inr rawResult \<Rightarrow>
                EvToolResult rawResult #
                summaryEvents w (requestDescription req) (the (q_tool req)) rawResult
            | Inl error \<Rightarrow> [EvError (errorMessage error (lit ''Execution failed''))])"
proof -
  obtain payload where p: "JSON_parse w (the (q_payload req)) = Some payload"
    using assms by (auto simp: accepted_def)
  show ?thesis
    unfolding stream_execute_def handlerDispatch_def requestPayload_def requestDescription_def
      Let_def p
    using assms by (simp add: accepted_def split: prod.splits)
qed

lemma stream_execute_failure:
  assumes "accepted w req" and "snd (handlerDispatch w req) = Inl e"
  shows "stream_execute w req =
           EvStart (the (q_taskId req)) (the (q_tool req)) #
           map EvLog (fst (handlerDispatch w req)) @
           [EvError (errorMessage e (lit ''Execution failed''))]"
  by (simp add: stream_execute_accepted[OF assms(1)] assms(2))

lemma stream_execute_success:
  assumes "accepted w req" and "snd (handlerDispatch w req) = Inr raw"
  shows "\<exists>sent r. stream_execute w req =
           EvStart (the (q_taskId req)) (the (q_tool req)) #
           map EvLog (fst (handlerDispatch w req)) @
           EvToolResult raw # map EvSummaryChunk sent @ [EvDone r]"
  using summaryEvents_shape[of w "requestDescription req" "the (q_tool req)" raw]
  by (auto simp: stream_execute_accepted[OF assms(1)] assms(2))

lemma filter_logs [simp]:
  "filter isTerminal (map EvLog ls) = []" "filter isToolResult (map EvLog ls) = []"
  "filter isStart (map EvLog ls) = []"
  by (induction ls) (simp_all add: isTerminal_def isToolResult_def isStart_def)

lemma filter_chunks [simp]:
  "filter isTerminal (map EvSummaryChunk cs) = []"
  "filter isToolResult (map EvSummaryChunk cs) = []"
  "filter isStart (map EvSummaryChunk cs) = []"
  by (induction cs) (simp_all add: isTerminal_def isToolResult_def isStart_def)

lemma kinds [simp]:
  "isTerminal (EvDone r)" "isTerminal (EvError m)" "\<not> isTerminal (EvStart a b)"
  "\<not> isTerminal (EvToolResult x)" "\<not> isTerminal (EvLog l)" "\<not> isTerminal (EvSummaryChunk c)"
  "isStart (EvStart a b)" "\<not> isStart (EvDone r)" "\<not> isStart (EvError m)"
  "\<not> isStart (EvToolResult x)" "\<not> isStart (EvLog l)" "\<not> isStart (EvSummaryChunk c)"
  "isToolResult (EvToolResult x)" "\<not> isToolResult (EvDone r)" "\<not> isToolResult (EvError m)"
  "\<not> isToolResult (EvStart a b)" "\<not> isToolResult (EvLog l)" "\<not> isToolResult (EvSummaryChunk c)"
  "isLog (EvLog l)" "\<not> isLog (EvDone r)" "\<not> isLog (EvError m)"
  "\<not> isLog (EvStart a b)" "\<not> isLog (EvToolResult x)" "\<not> isLog (EvSummaryChunk c)"
  "isSummaryChunk (EvSummaryChunk c)" "\<not> isSummaryChunk (EvDone r)" "\<not> isSummaryChunk (EvError m)"
  "\<not> isSummaryChunk (EvStart a b)" "\<not> isSummaryChunk (EvToolResult x)" "\<not> isSummaryChunk (EvLog l)"
  "isDone (EvDone r)" "\<not> isDone (EvError m)"
  by (simp_all add: isTerminal_def isStart_def isToolResult_def isLog_def isSummaryChunk_def
      isDone_def)

lemma stream_execute_one_terminal:
  "length (filter isTerminal (stream_execute w req)) = 1 \<and> isTerminal (last (stream_execute w req))"
proof (cases "accepted w req")
  case False
  from stream_execute_rejected[OF this] show ?thesis by auto
next
  case True
  show ?thesis
  proof (cases "snd (handlerDispatch w req)")
    case (Inl e)
    show ?thesis by (simp add: stream_execute_failure[OF True Inl])
  next
    case (Inr raw)
    from stream_execute_success[OF True Inr] show ?thesis by auto
  qed
qed

lemma stream_execute_start_before:
  "precededBy isStart (\<lambda>e. isLog e \<or> isToolResult e) (stream_execute w req)"
proof (cases "accepted w req")
  case False
  from stream_execute_rejected[OF this] show ?thesis by auto
next
  case True
  show ?thesis by (simp add: stream_execute_accepted[OF True])
qed

lemma stream_execute_result_before_chunks:
  "precededBy isToolResult isSummaryChunk (stream_execute w req)"
proof (cases "accepted w req")
  case False
  from stream_execute_rejected[OF this] show ?thesis by auto
next
  case True
  show ?thesis
  proof (cases "snd (handlerDispatch w req)")
    case (Inl e)
    have "\<forall>x \<in> set (stream_execute w req). \<not> isSummaryChunk x"
      by (auto simp: stream_execute_failure[OF True Inl])
    then show ?thesis by (rule precededBy_none)
  next
    case (Inr raw)
    from stream_execute_success[OF True Inr] obtain sent r where
      s: "stream_execute w req =
           (EvStart (the (q_taskId req)) (the (q_tool req)) #
            map EvLog (fst (handlerDispatch w req))) @
           EvToolResult raw # map EvSummaryChunk sent @ [EvDone r]"
      by auto
    show ?thesis unfolding s
      by (rule precededBy_append) auto
  qed
qed

lemma sample_accepted:
  "accepted sampleWorld
     \<lparr>q_taskId = Some (lit ''t1''), q_tool = Some (lit ''filesystem''),
      q_payload = Some (lit ''{}''), q_description = Some []\<rparr>"
  by (simp add: accepted_def truthy_def sampleWorld_def lit_def)

lemma sample_dispatch_filesystem:
  "handlerDispatch sampleWorld
     \<lparr>q_taskId = Some (lit ''t1''), q_tool = Some (lit ''filesystem''),
      q_payload = Some (lit ''{}''), q_description = Some []\<rparr> =
   ([], Inl (Error (lit ''EACCES: permission denied'')))"
  by (simp add: handlerDispatch_def requestPayload_def dispatchTool_def sampleWorld_def
      TOOL_DEFINITIONS_def lit_def)

text \<open>
  Claim C1. The events of one execution through the streaming endpoint: exactly one
  terminal event (\<open>done\<close> or \<open>error\<close>) is written and it is the last event; every \<open>log\<close> and
  every \<open>tool_result\<close> has a \<open>start\<close> before it, and every \<open>summary_chunk\<close> has a
  \<open>tool_result\<close> before it. For a task that is executed, that is a request that passes the
  parameter checks of the handler, \<open>start\<close> is the first event and the only \<open>start\<close>; when
  the dispatch returns, exactly one \<open>tool_result\<close> is written, with the raw result, and the
  terminal event is \<open>done\<close>; when the dispatch throws, no \<open>tool_result\<close> is written and the
  terminal event is \<open>error\<close> with the message of the error (\<open>Execution failed\<close> for a thrown
  value that is not an \<open>Error\<close>). A request that fails the checks gets one \<open>error\<close> event
  and nothing else.
\<close>

theorem stream_execute_event_order:
  fixes w req
  defines "evs \<equiv> stream_execute w req"
  shows "length (filter isTerminal evs) = 1 \<and> isTerminal (last evs) \<and>
   (\<forall>i < length evs. isLog (evs ! i) \<or> isToolResult (evs ! i) \<longrightarrow> (\<exists>j<i. isStart (evs ! j))) \<and>
   (\<forall>i < length evs. isSummaryChunk (evs ! i) \<longrightarrow> (\<exists>j<i. isToolResult (evs ! j))) \<and>
   (accepted w req \<longrightarrow>
      hd evs = EvStart (the (q_taskId req)) (the (q_tool req)) \<and>
      length (filter isStart evs) = 1 \<and>
      (\<forall>raw. snd (handlerDispatch w req) = Inr raw \<longrightarrow>
         filter isToolResult evs = [EvToolResult raw] \<and> isDone (last evs)) \<and>
      (\<forall>e. snd (handlerDispatch w req) = Inl e \<longrightarrow>
         filter isToolResult evs = [] \<and>
         last evs = EvError (errorMessage e (lit ''Execution failed''))) \<and>
      (\<forall>m. snd (handlerDispatch w req) = Inl (Error m) \<longrightarrow> last evs = EvError m))"
proof -
  have t: "length (filter isTerminal evs) = 1 \<and> isTerminal (last evs)"
    unfolding evs_def by (rule stream_execute_one_terminal)
  have o1: "\<forall>i < length evs. isLog (evs ! i) \<or> isToolResult (evs ! i) \<longrightarrow>
              (\<exists>j<i. isStart (evs ! j))"
    using precededBy_nth[OF stream_execute_start_before[of w req]] unfolding evs_def by blast
  have o2: "\<forall>i < length evs. isSummaryChunk (evs ! i) \<longrightarrow> (\<exists>j<i. isToolResult (evs ! j))"
    using precededBy_nth[OF stream_execute_result_before_chunks[of w req]] unfolding evs_def
    by blast
  have a: "accepted w req \<longrightarrow>
      hd evs = EvStart (the (q_taskId req)) (the (q_tool req)) \<and>
      length (filter isStart evs) = 1 \<and>
      (\<forall>raw. snd (handlerDispatch w req) = Inr raw \<longrightarrow>
         filter isToolResult evs = [EvToolResult raw] \<and> isDone (last evs)) \<and>
      (\<forall>e. snd (handlerDispatch w req) = Inl e \<longrightarrow>
         filter isToolResult evs = [] \<and>
         last evs = EvError (errorMessage e (lit ''Execution failed''))) \<and>
      (\<forall>m. snd (handlerDispatch w req) = Inl (Error m) \<longrightarrow> last evs = EvError m)"
  proof
    assume acc: "accepted w req"
    have h: "hd evs = EvStart (the (q_taskId req)) (the (q_tool req))"
      unfolding evs_def by (simp add: stream_execute_accepted[OF acc])
    have s: "length (filter isStart evs) = 1"
    proof (cases "snd (handlerDispatch w req)")
      case (Inl e)
      show ?thesis unfolding evs_def by (simp add: stream_execute_failure[OF acc Inl])
    next
      case (Inr raw)
      from stream_execute_success[OF acc Inr] show ?thesis unfolding evs_def by auto
    qed
    have ok: "\<forall>raw. snd (handlerDispatch w req) = Inr raw \<longrightarrow>
         filter isToolResult evs = [EvToolResult raw] \<and> isDone (last evs)"
    proof (intro allI impI)
      fix raw assume r: "snd (handlerDispatch w req) = Inr raw"
      from stream_execute_success[OF acc r]
      show "filter isToolResult evs = [EvToolResult raw] \<and> isDone (last evs)"
        unfolding evs_def by auto
    qed
    have ko: "\<forall>e. snd (handlerDispatch w req) = Inl e \<longrightarrow>
         filter isToolResult evs = [] \<and>
         last evs = EvError (errorMessage e (lit ''Execution failed''))"
    proof (intro allI impI)
      fix e assume r: "snd (handlerDispatch w req) = Inl e"
      show "filter isToolResult evs = [] \<and>
            last evs = EvError (errorMessage e (lit ''Execution failed''))"
        unfolding evs_def by (simp add: stream_execute_failure[OF acc r])
    qed
    have km: "\<forall>m. snd (handlerDispatch w req) = Inl (Error m) \<longrightarrow> last evs = EvError m"
      using ko by (simp add: errorMessage_def)
    show "hd evs = EvStart (the (q_taskId req)) (the (q_tool req)) \<and>
      length (filter isStart evs) = 1 \<and>
      (\<forall>raw. snd (handlerDispatch w req) = Inr raw \<longrightarrow>
         filter isToolResult evs = [EvToolResult raw] \<and> isDone (last evs)) \<and>
      (\<forall>e. snd (handlerDispatch w req) = Inl e \<longrightarrow>
         filter isToolResult evs = [] \<and>
         last evs = EvError (errorMessage e (lit ''Execution failed''))) \<and>
      (\<forall>m. snd (handlerDispatch w req) = Inl (Error m) \<longrightarrow> last evs = EvError m)"
      using h s ok ko km by blast
  qed
  show ?thesis using t o1 o2 a by blast
qed

theorem stream_execute_event_order_witness:
  "accepted sampleWorld
     \<lparr>q_taskId = Some (lit ''t1''), q_tool = Some (lit ''filesystem''),
      q_payload = Some (lit ''{}''), q_description = Some []\<rparr> \<and>
   hd (stream_execute sampleWorld
     \<lparr>q_taskId = Some (lit ''t1''), q_tool = Some (lit ''filesystem''),
      q_payload = Some (lit ''{}''), q_description = Some []\<rparr>) =
     EvStart (lit ''t1'') (lit ''filesystem'') \<and>
   last (stream_execute sampleWorld
     \<lparr>q_taskId = Some (lit ''t1''), q_tool = Some (lit ''filesystem''),
      q_payload = Some (lit ''{}''), q_description = Some []\<rparr>) =
     EvError (lit ''EACCES: permission denied'') \<and>
   stream_execute sampleWorld
     \<lparr>q_taskId = Some (lit ''t2''), q_tool = Some (lit ''slack''),
      q_payload = Some (lit ''{}''), q_description = Some []\<rparr> =
     [EvStart (lit ''t2'') (lit ''slack''), EvToolResult (lit ''Message sent''),
      EvSummaryChunk (lit ''Result: ''), EvSummaryChunk (lit ''Message sent''),
      EvDone (lit ''Result: Message sent'')]"
proof -
  let ?q = "\<lparr>q_taskId = Some (lit ''t1''), q_tool = Some (lit ''filesystem''),
      q_payload = Some (lit ''{}''), q_description = Some []\<rparr>"
  note T = stream_execute_event_order[of sampleWorld ?q]
  have d: "snd (handlerDispatch sampleWorld ?q) = Inl (Error (lit ''EACCES: permission denied''))"
    by (simp add: sample_dispatch_filesystem)
  have 1: "hd (stream_execute sampleWorld ?q) = EvStart (lit ''t1'') (lit ''filesystem'')"
    using T sample_accepted by simp
  have 2: "last (stream_execute sampleWorld ?q) = EvError (lit ''EACCES: permission denied'')"
    using T sample_accepted d by blast
  have 3: "stream_execute sampleWorld
     \<lparr>q_taskId = Some (lit ''t2''), q_tool = Some (lit ''slack''),
      q_payload = Some (lit ''{}''), q_description = Some []\<rparr> =
     [EvStart (lit ''t2'') (lit ''slack''), EvToolResult (lit ''Message sent''),
      EvSummaryChunk (lit ''Result: ''), EvSummaryChunk (lit ''Message sent''),
      EvDone (lit ''Result: Message sent'')]"
    by (simp add: stream_execute_def truthy_def summaryEvents_def dispatchTool_def sampleWorld_def
        TOOL_DEFINITIONS_def lit_def Let_def)
  show ?thesis using sample_accepted 1 2 3 by simp
qed

text \<open>
  Claim C6. When the dispatch returns and the summarizer fails, at once or while its
  stream is read, the task does not fail: behind the chunks already sent the raw result
  is written as one \<open>summary_chunk\<close>, the \<open>done\<close> event carries the raw result, and no
  \<open>error\<close> event is written. When the summarizer fails at once, the raw result is the only
  chunk.
\<close>

theorem summarizer_failure_degrades_to_raw:
  assumes "accepted w req" and "snd (handlerDispatch w req) = Inr raw"
    and "streamSummarizeToolResult w (requestDescription req) (the (q_tool req)) raw =
           SummaryThrows \<or>
         (\<exists>chunks. streamSummarizeToolResult w (requestDescription req) (the (q_tool req)) raw =
           SummaryStream chunks True)"
  shows "(\<exists>sent. stream_execute w req =
            EvStart (the (q_taskId req)) (the (q_tool req)) #
            map EvLog (fst (handlerDispatch w req)) @
            EvToolResult raw # map EvSummaryChunk sent @ [EvSummaryChunk raw, EvDone raw] \<and>
            (streamSummarizeToolResult w (requestDescription req) (the (q_tool req)) raw =
               SummaryThrows \<longrightarrow> sent = [])) \<and>
         last (stream_execute w req) = EvDone raw \<and>
         (\<forall>m. EvError m \<notin> set (stream_execute w req))"
proof -
  let ?s = "streamSummarizeToolResult w (requestDescription req) (the (q_tool req)) raw"
  have "\<exists>sent. summaryEvents w (requestDescription req) (the (q_tool req)) raw =
          map EvSummaryChunk sent @ [EvSummaryChunk raw, EvDone raw] \<and>
          (?s = SummaryThrows \<longrightarrow> sent = [])"
  proof (cases ?s)
    case SummaryThrows
    then show ?thesis by (simp add: summaryEvents_def)
  next
    case (SummaryStream chunks thr)
    with assms(3) have "thr" by auto
    then have "summaryEvents w (requestDescription req) (the (q_tool req)) raw =
          map EvSummaryChunk (filter (\<lambda>content. content \<noteq> []) chunks) @
          [EvSummaryChunk raw, EvDone raw]"
      using SummaryStream by (simp add: summaryEvents_def Let_def)
    then show ?thesis using SummaryStream
      by (intro exI[of _ "filter (\<lambda>content. content \<noteq> []) chunks"]) simp
  qed
  then obtain sent where
    s: "summaryEvents w (requestDescription req) (the (q_tool req)) raw =
          map EvSummaryChunk sent @ [EvSummaryChunk raw, EvDone raw]"
    and e: "?s = SummaryThrows \<longrightarrow> sent = []"
    by blast
  have x: "stream_execute w req =
            EvStart (the (q_taskId req)) (the (q_tool req)) #
            map EvLog (fst (handlerDispatch w req)) @
            EvToolResult raw # map EvSummaryChunk sent @ [EvSummaryChunk raw, EvDone raw]"
    by (simp add: stream_execute_accepted[OF assms(1)] assms(2) s)
  have l: "last (stream_execute w req) = EvDone raw"
    by (simp add: x)
  have n: "\<forall>m. EvError m \<notin> set (stream_execute w req)"
    by (auto simp: x)
  show ?thesis using x e l n by blast
qed

theorem summarizer_failure_degrades_to_raw_witness:
  "stream_execute (sampleWorld\<lparr>streamSummarizeToolResult := (\<lambda>d t r. SummaryThrows)\<rparr>)
     \<lparr>q_taskId = Some (lit ''t2''), q_tool = Some (lit ''slack''),
      q_payload = Some (lit ''{}''), q_description = Some []\<rparr> =
     [EvStart (lit ''t2'') (lit ''slack''), EvToolResult (lit ''Message sent''),
      EvSummaryChunk (lit ''Message sent''), EvDone (lit ''Message sent'')]"
proof -
  let ?w = "sampleWorld\<lparr>streamSummarizeToolResult := (\<lambda>d t r. SummaryThrows)\<rparr>"
  let ?q = "\<lparr>q_taskId = Some (lit ''t2''), q_tool = Some (lit ''slack''),
      q_payload = Some (lit ''{}''), q_description = Some []\<rparr>"
  have a: "accepted ?w ?q"
    by (simp add: accepted_def truthy_def sampleWorld_def lit_def)
  have d: "handlerDispatch ?w ?q = ([], Inr (lit ''Message sent''))"
    by (simp add: handlerDispatch_def requestPayload_def dispatchTool_def sampleWorld_def
        TOOL_DEFINITIONS_def lit_def)
  then have d': "snd (handlerDispatch ?w ?q) = Inr (lit ''Message sent'')" by simp
  have s: "streamSummarizeToolResult ?w (requestDescription ?q) (the (q_tool ?q))
             (lit ''Message sent'') = SummaryThrows \<or>
           (\<exists>chunks. streamSummarizeToolResult ?w (requestDescription ?q) (the (q_tool ?q))
             (lit ''Message sent'') = SummaryStream chunks True)"
    by (simp add: sampleWorld_def)
  have s': "streamSummarizeToolResult ?w (requestDescription ?q) (the (q_tool ?q))
             (lit ''Message sent'') = SummaryThrows"
    by (simp add: sampleWorld_def)
  from summarizer_failure_degrades_to_raw[OF a d' s] s' d
  show ?thesis by auto
qed

section \<open>Properties of the client\<close>

lemma updateTaskInMessages_ident: "updateTaskInMessages tid (\<lambda>t. t) prev = prev"
  unfolding updateTaskInMessages_def
  by (rule map_idI) (simp split: option.splits)

lemma onEvent_taskStep: "onEvent tid e prev = updateTaskInMessages tid (taskStep e) prev"
proof (cases e)
  case (EvStart a b)
  have "taskStep (EvStart a b) = (\<lambda>t. t)" by (rule ext) (simp add: taskStep_def)
  then show ?thesis
    using EvStart by (simp add: onEvent_def updateTaskInMessages_ident)
next
  case (EvToolResult r)
  have "taskStep (EvToolResult r) = (\<lambda>t. t)" by (rule ext) (simp add: taskStep_def)
  then show ?thesis
    using EvToolResult by (simp add: onEvent_def updateTaskInMessages_ident)
next
  case (EvLog l)
  have "taskStep (EvLog l) =
    (\<lambda>t. t\<lparr>t_logs := Some ((case t_logs t of None \<Rightarrow> [] | Some ls \<Rightarrow> ls) @ [l])\<rparr>)"
    by (rule ext) (simp add: taskStep_def)
  then show ?thesis using EvLog by (simp add: onEvent_def)
next
  case (EvSummaryChunk c)
  have "taskStep (EvSummaryChunk c) =
    (\<lambda>t. t\<lparr>t_result := Some ((if truthy (t_result t) then the (t_result t) else []) @ c)\<rparr>)"
    by (rule ext) (simp add: taskStep_def)
  then show ?thesis using EvSummaryChunk by (simp add: onEvent_def)
next
  case (EvDone r)
  have "taskStep (EvDone r) = (\<lambda>t. t\<lparr>t_status := success\<rparr>)"
    by (rule ext) (simp add: taskStep_def)
  then show ?thesis using EvDone by (simp add: onEvent_def)
next
  case (EvError m)
  have "taskStep (EvError m) = (\<lambda>t. t\<lparr>t_status := failed, t_error := Some m\<rparr>)"
    by (rule ext) (simp add: taskStep_def)
  then show ?thesis using EvError by (simp add: onEvent_def)
qed

lemma taskStep_id [simp]: "t_id (taskStep e t) = t_id t"
  by (cases e) (simp_all add: taskStep_def)

lemma runTask_Nil [simp]: "runTask [] t = t"
  by (simp add: runTask_def)

lemma runTask_Cons [simp]: "runTask (e # es) t = runTask es (taskStep e t)"
  by (simp add: runTask_def)

lemma runTask_snoc: "runTask (es @ [e]) t = taskStep e (runTask es t)"
  by (simp add: runTask_def)

lemma runTask_id [simp]: "t_id (runTask es t) = t_id t"
  by (induction es arbitrary: t) simp_all

lemma updateTaskInMessages_twice:
  "(\<And>t. t_id (f t) = t_id t) \<Longrightarrow>
   updateTaskInMessages tid g (updateTaskInMessages tid f prev) =
   updateTaskInMessages tid (\<lambda>t. g (f t)) prev"
  unfolding updateTaskInMessages_def
  by (induction prev) (simp_all split: option.splits)

lemma foldl_onEvent:
  "(\<And>t. t_id (f t) = t_id t) \<Longrightarrow>
   foldl (\<lambda>msgs e. onEvent tid e msgs) (updateTaskInMessages tid f prev) es =
   updateTaskInMessages tid (\<lambda>t. runTask es (f t)) prev"
proof (induction es arbitrary: f)
  case Nil
  then show ?case by simp
next
  case (Cons e es)
  have "foldl (\<lambda>msgs e. onEvent tid e msgs) (updateTaskInMessages tid f prev) (e # es) =
        foldl (\<lambda>msgs e. onEvent tid e msgs)
          (updateTaskInMessages tid (\<lambda>t. taskStep e (f t)) prev) es"
    by (simp add: onEvent_taskStep updateTaskInMessages_twice[OF Cons.prems])
  also have "\<dots> = updateTaskInMessages tid (\<lambda>t. runTask es (taskStep e (f t))) prev"
    by (rule Cons.IH) (simp add: Cons.prems)
  finally show ?case by simp
qed

lemma executeTaskInternal_eq:
  "executeTaskInternal server stringify task prev =
     (updateTaskInMessages (t_id task) (taskAfter server stringify task) prev,
      streamExecuteTask server stringify (taskRequest task))"
proof -
  have "foldl (\<lambda>msgs e. onEvent (t_id task) e msgs)
          (updateTaskInMessages (t_id task) (\<lambda>t. t\<lparr>t_status := executing, t_result := Some []\<rparr>) prev)
          (streamExecuteTask server stringify (taskRequest task)) =
        updateTaskInMessages (t_id task) (taskAfter server stringify task) prev"
    unfolding taskAfter_def by (rule foldl_onEvent) simp
  then show ?thesis
    by (simp add: executeTaskInternal_def Let_def taskRequest_def)
qed

lemma updateTaskInMessages_nth:
  "j < length prev \<Longrightarrow>
   m_task (updateTaskInMessages tid f prev ! j) =
     (case m_task (prev ! j) of
        None \<Rightarrow> None
      | Some t \<Rightarrow> Some (if t_id t = tid then f t else t))"
  by (simp add: updateTaskInMessages_def split: option.splits)

lemma updateTaskInMessages_length [simp]:
  "length (updateTaskInMessages tid f prev) = length prev"
  by (simp add: updateTaskInMessages_def)

lemma delivered_shape:
  "\<exists>pre term. delivered xs = pre @ [term] \<and> (\<forall>e \<in> set pre. \<not> isTerminal e) \<and> isTerminal term"
proof (induction xs)
  case Nil
  have "delivered [] = [] @ [EvError (lit ''Stream connection error'')]" by simp
  then show ?case by (metis empty_iff list.set(1) kinds(2))
next
  case (Cons e es)
  then obtain pre term' where
    ih: "delivered es = pre @ [term']" "\<forall>e \<in> set pre. \<not> isTerminal e" "isTerminal term'"
    by blast
  show ?case
  proof (cases e)
    case (EvDone r)
    then have "delivered (e # es) = [] @ [EvDone r]" by simp
    then show ?thesis by (metis empty_iff list.set(1) kinds(1))
  next
    case (EvError m)
    then have "delivered (e # es) = [] @ [EvError (listenerMessage m)]" by simp
    then show ?thesis by (metis empty_iff list.set(1) kinds(2))
  next
    case (EvStart a b)
    then have "delivered (e # es) = (e # pre) @ [term']" using ih(1) by simp
    moreover have "\<forall>x \<in> set (e # pre). \<not> isTerminal x" using ih(2) EvStart by simp
    ultimately show ?thesis using ih(3) by blast
  next
    case (EvLog l)
    then have "delivered (e # es) = (e # pre) @ [term']" using ih(1) by simp
    moreover have "\<forall>x \<in> set (e # pre). \<not> isTerminal x" using ih(2) EvLog by simp
    ultimately show ?thesis using ih(3) by blast
  next
    case (EvToolResult r)
    then have "delivered (e # es) = (e # pre) @ [term']" using ih(1) by simp
    moreover have "\<forall>x \<in> set (e # pre). \<not> isTerminal x" using ih(2) EvToolResult by simp
    ultimately show ?thesis using ih(3) by blast
  next
    case (EvSummaryChunk c)
    then have "delivered (e # es) = (e # pre) @ [term']" using ih(1) by simp
    moreover have "\<forall>x \<in> set (e # pre). \<not> isTerminal x" using ih(2) EvSummaryChunk by simp
    ultimately show ?thesis using ih(3) by blast
  qed
qed

lemma settlement_append:
  "\<forall>e \<in> set pre. \<not> isTerminal e \<Longrightarrow> settlement (pre @ es) = settlement es"
proof (induction pre)
  case Nil
  then show ?case by simp
next
  case (Cons e pre)
  then show ?case by (cases e) (simp_all add: isTerminal_def)
qed

lemma settlement_delivered: "settlement (delivered xs) \<noteq> None"
proof -
  obtain pre term' where
    d: "delivered xs = pre @ [term']" "\<forall>e \<in> set pre. \<not> isTerminal e" "isTerminal term'"
    using delivered_shape by blast
  have "settlement [term'] \<noteq> None"
    using d(3) by (cases term') (simp_all add: isTerminal_def)
  then show ?thesis by (simp add: d(1) settlement_append[OF d(2)])
qed

lemma filter_terminal_none:
  "\<forall>e \<in> set pre. \<not> isTerminal e \<Longrightarrow> filter isTerminal pre = []"
  by (induction pre) simp_all

lemma delivered_one_terminal:
  "length (filter isTerminal (delivered xs)) = 1 \<and> isTerminal (last (delivered xs))"
proof -
  obtain pre term' where
    d: "delivered xs = pre @ [term']" "\<forall>e \<in> set pre. \<not> isTerminal e" "isTerminal term'"
    using delivered_shape by blast
  show ?thesis by (simp add: d(1) d(3) filter_terminal_none[OF d(2)])
qed

lemma runTask_nonterminal:
  assumes "\<forall>e \<in> set pre. \<not> isTerminal e" and "t_result t = Some r"
  shows "t_status (runTask pre t) = t_status t \<and> t_error (runTask pre t) = t_error t \<and>
         t_result (runTask pre t) = Some (r @ chunksOf pre) \<and>
         t_logs (runTask pre t) =
           (if logsOf pre = [] then t_logs t
            else Some ((case t_logs t of None \<Rightarrow> [] | Some ls \<Rightarrow> ls) @ logsOf pre))"
  using assms
proof (induction pre arbitrary: t r)
  case Nil
  then show ?case by simp
next
  case (Cons e pre)
  show ?case
  proof (cases e)
    case (EvStart a b)
    have "t_result (taskStep e t) = Some r" using Cons.prems EvStart by (simp add: taskStep_def)
    from Cons.IH[OF _ this] Cons.prems(1) show ?thesis using EvStart by (simp add: taskStep_def)
  next
    case (EvLog l)
    have "t_result (taskStep e t) = Some r" using Cons.prems EvLog by (simp add: taskStep_def)
    from Cons.IH[OF _ this] Cons.prems(1) show ?thesis using EvLog
      by (simp add: taskStep_def split: option.splits)
  next
    case (EvToolResult x)
    have "t_result (taskStep e t) = Some r" using Cons.prems EvToolResult by (simp add: taskStep_def)
    from Cons.IH[OF _ this] Cons.prems(1) show ?thesis using EvToolResult by (simp add: taskStep_def)
  next
    case (EvSummaryChunk c)
    have "t_result (taskStep e t) = Some (r @ c)"
      using Cons.prems EvSummaryChunk by (simp add: taskStep_def truthy_def)
    from Cons.IH[OF _ this] Cons.prems(1) show ?thesis using EvSummaryChunk
      by (simp add: taskStep_def)
  next
    case (EvDone x)
    with Cons.prems(1) show ?thesis by simp
  next
    case (EvError x)
    with Cons.prems(1) show ?thesis by simp
  qed
qed

lemma chunksOf_snoc_terminal: "isTerminal e \<Longrightarrow> chunksOf (pre @ [e]) = chunksOf pre"
  by (induction pre) (auto simp: isTerminal_def split: StreamEvent.splits)

lemma logsOf_snoc_terminal: "isTerminal e \<Longrightarrow> logsOf (pre @ [e]) = logsOf pre"
  by (induction pre) (auto simp: isTerminal_def split: StreamEvent.splits)

lemma taskAfter_outcome:
  fixes server stringify task t0
  defines "events \<equiv> streamExecuteTask server stringify (taskRequest task)"
    and "t1 \<equiv> taskAfter server stringify task t0"
  shows "t_id t1 = t_id t0 \<and>
         t_status t1 = (if isDone (last events) then success else failed) \<and>
         (isDone (last events) \<longrightarrow> t_error t1 = t_error t0) \<and>
         (\<not> isDone (last events) \<longrightarrow> (\<exists>m. last events = EvError m \<and> t_error t1 = Some m)) \<and>
         t_result t1 = Some (chunksOf events) \<and>
         t_logs t1 =
           (if logsOf events = [] then t_logs t0
            else Some ((case t_logs t0 of None \<Rightarrow> [] | Some ls \<Rightarrow> ls) @ logsOf events))"
proof -
  let ?t = "t0\<lparr>t_status := executing, t_result := Some []\<rparr>"
  obtain pre term' where
    d: "events = pre @ [term']" "\<forall>e \<in> set pre. \<not> isTerminal e" "isTerminal term'"
    unfolding events_def streamExecuteTask_def using delivered_shape by blast
  have r: "t_result ?t = Some []" by simp
  note n = runTask_nonterminal[OF d(2) r]
  have t1: "t1 = taskStep term' (runTask pre ?t)"
    unfolding t1_def taskAfter_def events_def[symmetric] d(1) by (rule runTask_snoc)
  have c: "chunksOf events = chunksOf pre" "logsOf events = logsOf pre"
    unfolding d(1) using d(3) by (simp_all add: chunksOf_snoc_terminal logsOf_snoc_terminal)
  have l: "last events = term'" by (simp add: d(1))
  show ?thesis
  proof (cases term')
    case (EvDone x)
    then show ?thesis using n by (simp add: t1 c l taskStep_def)
  next
    case (EvError m)
    then show ?thesis using n by (simp add: t1 c l taskStep_def)
  qed (use d(3) in simp_all)
qed


lemma chunksOf_logs [simp]: "chunksOf (map EvLog ls @ rest) = chunksOf rest"
  by (induction ls) simp_all



lemma sample_queries:
  "toQuery sampleStringify (taskRequest (sampleTask i tool)) =
     \<lparr>q_taskId = Some (lit i), q_tool = Some (lit tool), q_payload = Some (lit ''{}''),
      q_description = Some (lit ''a task'')\<rparr>"
  by (simp add: toQuery_def taskRequest_def sampleTask_def sampleStringify_def truthy_def lit_def)

lemma sample_run_filesystem:
  "streamExecuteTask (stream_execute sampleWorld) sampleStringify
     (taskRequest (sampleTask ''t1'' ''filesystem'')) =
   [EvStart (lit ''t1'') (lit ''filesystem''), EvError (lit ''EACCES: permission denied'')]"
  unfolding streamExecuteTask_def sample_queries
  by (simp add: stream_execute_def truthy_def summaryEvents_def dispatchTool_def sampleWorld_def
      TOOL_DEFINITIONS_def errorMessage_def listenerMessage_def lit_def Let_def)

lemma sample_run_slack:
  "streamExecuteTask (stream_execute sampleWorld) sampleStringify
     (taskRequest (sampleTask ''t2'' ''slack'')) =
   [EvStart (lit ''t2'') (lit ''slack''), EvToolResult (lit ''Message sent''),
    EvSummaryChunk (lit ''Result: ''), EvSummaryChunk (lit ''Message sent''),
    EvDone (lit ''Result: Message sent'')]"
  unfolding streamExecuteTask_def sample_queries
  by (simp add: stream_execute_def truthy_def summaryEvents_def dispatchTool_def sampleWorld_def
      TOOL_DEFINITIONS_def lit_def Let_def)

lemma sample_run_calendar:
  "streamExecuteTask (stream_execute sampleWorld) sampleStringify
     (taskRequest (sampleTask ''t3'' ''calendar'')) =
   [EvStart (lit ''t3'') (lit ''calendar''), EvToolResult (lit ''Event created''),
    EvSummaryChunk (lit ''Result: ''), EvSummaryChunk (lit ''Event created''),
    EvDone (lit ''Result: Event created'')]"
  unfolding streamExecuteTask_def sample_queries
  by (simp add: stream_execute_def truthy_def summaryEvents_def dispatchTool_def sampleWorld_def
      TOOL_DEFINITIONS_def lit_def Let_def)



lemma executeTasksSequentially_Cons:
  "executeTasksSequentially server stringify i (task # tasks) msgs =
     (case executeTasksSequentially server stringify (Suc i) tasks
             (updateTaskInMessages (t_id task) (taskAfter (server i) stringify task) msgs) of
        None \<Rightarrow> None
      | Some (final, trace) \<Rightarrow>
          Some (final, (t_id task, streamExecuteTask (server i) stringify (taskRequest task)) # trace))"
proof -
  obtain outcome where
    "settlement (streamExecuteTask (server i) stringify (taskRequest task)) = Some outcome"
    using settlement_delivered unfolding streamExecuteTask_def by blast
  then show ?thesis
    by (simp add: executeTaskInternal_eq)
qed

declare executeTasksSequentially.simps(2) [simp del]

lemma executeTasksSequentially_total:
  "\<exists>final trace. executeTasksSequentially server stringify i tasks msgs = Some (final, trace)"
proof (induction tasks arbitrary: i msgs)
  case Nil
  then show ?case by simp
next
  case (Cons task tasks)
  from Cons.IH[of "Suc i" "updateTaskInMessages (t_id task) (taskAfter (server i) stringify task) msgs"]
  show ?case by (auto simp: executeTasksSequentially_Cons)
qed

lemma executeTasksSequentially_trace:
  "executeTasksSequentially server stringify i tasks msgs = Some (final, trace) \<Longrightarrow>
   length trace = length tasks \<and> length final = length msgs \<and>
   (\<forall>k<length tasks. trace ! k =
      (t_id (tasks ! k), streamExecuteTask (server (i + k)) stringify (taskRequest (tasks ! k))))"
proof (induction tasks arbitrary: i msgs final trace)
  case Nil
  then show ?case by simp
next
  case (Cons task tasks)
  let ?msgs = "updateTaskInMessages (t_id task) (taskAfter (server i) stringify task) msgs"
  from Cons.prems obtain trace' where
    r: "executeTasksSequentially server stringify (Suc i) tasks ?msgs = Some (final, trace')"
    and t: "trace = (t_id task, streamExecuteTask (server i) stringify (taskRequest task)) # trace'"
    by (auto simp: executeTasksSequentially_Cons split: option.splits)
  note ih = Cons.IH[OF r]
  have "\<forall>k<length (task # tasks). trace ! k =
      (t_id ((task # tasks) ! k),
       streamExecuteTask (server (i + k)) stringify (taskRequest ((task # tasks) ! k)))"
  proof (intro allI impI)
    fix k assume k: "k < length (task # tasks)"
    show "trace ! k =
      (t_id ((task # tasks) ! k),
       streamExecuteTask (server (i + k)) stringify (taskRequest ((task # tasks) ! k)))"
    proof (cases k)
      case 0
      then show ?thesis by (simp add: t)
    next
      case (Suc k')
      then have "k' < length tasks" using k by simp
      with ih show ?thesis by (simp add: t Suc)
    qed
  qed
  then show ?case using ih by (simp add: t)
qed

lemma taskAfter_id [simp]: "t_id (taskAfter server stringify task t) = t_id t"
  by (simp add: taskAfter_def)

lemma executeTasksSequentially_cards:
  "executeTasksSequentially server stringify i tasks msgs = Some (final, trace) \<Longrightarrow>
   distinct (map t_id tasks) \<Longrightarrow> j < length msgs \<Longrightarrow> m_task (msgs ! j) = Some t0 \<Longrightarrow>
   (t_id t0 \<notin> set (map t_id tasks) \<longrightarrow> m_task (final ! j) = Some t0) \<and>
   (\<forall>k<length tasks. t_id t0 = t_id (tasks ! k) \<longrightarrow>
      m_task (final ! j) = Some (taskAfter (server (i + k)) stringify (tasks ! k) t0))"
proof (induction tasks arbitrary: i msgs final trace t0)
  case Nil
  then show ?case by simp
next
  case (Cons task tasks)
  let ?f = "taskAfter (server i) stringify task"
  let ?msgs = "updateTaskInMessages (t_id task) ?f msgs"
  let ?t0 = "if t_id t0 = t_id task then ?f t0 else t0"
  from Cons.prems(1) obtain trace' where
    r: "executeTasksSequentially server stringify (Suc i) tasks ?msgs = Some (final, trace')"
    by (auto simp: executeTasksSequentially_Cons split: option.splits)
  have d: "distinct (map t_id tasks)" and nt: "t_id task \<notin> set (map t_id tasks)"
    using Cons.prems(2) by simp_all
  have j: "j < length ?msgs" using Cons.prems(3) by simp
  have m: "m_task (?msgs ! j) = Some ?t0"
    using Cons.prems(3,4) by (simp add: updateTaskInMessages_nth)
  note ih = Cons.IH[OF r d j m]
  have id0: "t_id ?t0 = t_id t0" by simp
  show ?case
  proof (cases "t_id t0 = t_id task")
    case True
    then have "t_id ?t0 \<notin> set (map t_id tasks)" using nt by simp
    with ih have f: "m_task (final ! j) = Some (?f t0)" using True by simp
    have "\<forall>k<length (task # tasks). t_id t0 = t_id ((task # tasks) ! k) \<longrightarrow>
      m_task (final ! j) = Some (taskAfter (server (i + k)) stringify ((task # tasks) ! k) t0)"
    proof (intro allI impI)
      fix k assume k: "k < length (task # tasks)" and e: "t_id t0 = t_id ((task # tasks) ! k)"
      show "m_task (final ! j) =
              Some (taskAfter (server (i + k)) stringify ((task # tasks) ! k) t0)"
      proof (cases k)
        case 0
        then show ?thesis using f by simp
      next
        case (Suc k')
        then have "k' < length tasks" using k by simp
        then have "t_id (tasks ! k') \<in> set (map t_id tasks)" by simp
        then show ?thesis using e Suc True nt by simp
      qed
    qed
    then show ?thesis using True by simp
  next
    case False
    then have t0: "?t0 = t0" by simp
    have "\<forall>k<length (task # tasks). t_id t0 = t_id ((task # tasks) ! k) \<longrightarrow>
      m_task (final ! j) = Some (taskAfter (server (i + k)) stringify ((task # tasks) ! k) t0)"
    proof (intro allI impI)
      fix k assume k: "k < length (task # tasks)" and e: "t_id t0 = t_id ((task # tasks) ! k)"
      show "m_task (final ! j) =
              Some (taskAfter (server (i + k)) stringify ((task # tasks) ! k) t0)"
      proof (cases k)
        case 0
        then show ?thesis using e False by simp
      next
        case (Suc k')
        then have "k' < length tasks" using k by simp
        then show ?thesis using ih e Suc unfolding t0 by simp
      qed
    qed
    moreover have "t_id t0 \<notin> set (map t_id (task # tasks)) \<longrightarrow> m_task (final ! j) = Some t0"
      using ih unfolding t0 by simp
    ultimately show ?thesis by blast
  qed
qed

text \<open>
  Claim C2. For every plan and every behaviour of the server, \<open>executeTasksSequentially\<close>
  runs to the end of the list: it executes each task once, in the order of the list (the
  trace has the task ids in that order, a plan of \<open>n\<close> tasks gives \<open>n\<close> executions); the
  events of the \<open>k\<close>-th execution are those of the request for the \<open>k\<close>-th task, they end
  with the one terminal event, and the next execution comes behind them, whether that
  event was \<open>done\<close> or \<open>error\<close>. With distinct task ids, the card of each task ends as
  \<open>success\<close> when its own execution ended with \<open>done\<close> and as \<open>failed\<close> otherwise. In the
  sample world, where the filesystem adapter throws, the plan of a filesystem, a slack and
  a calendar task ends with the statuses failed, success, success.
\<close>

theorem executeTasksSequentially_runs_every_task:
  "\<exists>final trace.
     executeTasksSequentially server stringify i tasks msgs = Some (final, trace) \<and>
     map fst trace = map t_id tasks \<and> length final = length msgs \<and>
     (\<forall>k<length tasks.
        snd (trace ! k) =
          streamExecuteTask (server (i + k)) stringify (taskRequest (tasks ! k)) \<and>
        length (filter isTerminal (snd (trace ! k))) = 1 \<and>
        isTerminal (last (snd (trace ! k)))) \<and>
     (distinct (map t_id tasks) \<longrightarrow>
        (\<forall>k<length tasks. \<forall>j<length msgs. \<forall>t0.
           m_task (msgs ! j) = Some t0 \<and> t_id t0 = t_id (tasks ! k) \<longrightarrow>
           (\<exists>t1. m_task (final ! j) = Some t1 \<and>
                 t_status t1 = (if isDone (last (snd (trace ! k))) then success else failed))))"
proof -
  obtain final trace where
    e: "executeTasksSequentially server stringify i tasks msgs = Some (final, trace)"
    using executeTasksSequentially_total by blast
  note tr = executeTasksSequentially_trace[OF e]
  have 1: "map fst trace = map t_id tasks"
    using tr by (auto simp: list_eq_iff_nth_eq)
  have 2: "\<forall>k<length tasks.
        snd (trace ! k) =
          streamExecuteTask (server (i + k)) stringify (taskRequest (tasks ! k)) \<and>
        length (filter isTerminal (snd (trace ! k))) = 1 \<and>
        isTerminal (last (snd (trace ! k)))"
    using tr delivered_one_terminal by (simp add: streamExecuteTask_def)
  have 3: "distinct (map t_id tasks) \<longrightarrow>
        (\<forall>k<length tasks. \<forall>j<length msgs. \<forall>t0.
           m_task (msgs ! j) = Some t0 \<and> t_id t0 = t_id (tasks ! k) \<longrightarrow>
           (\<exists>t1. m_task (final ! j) = Some t1 \<and>
                 t_status t1 = (if isDone (last (snd (trace ! k))) then success else failed)))"
  proof (intro impI allI)
    fix k j t0
    assume d: "distinct (map t_id tasks)" and k: "k < length tasks" and j: "j < length msgs"
      and m: "m_task (msgs ! j) = Some t0 \<and> t_id t0 = t_id (tasks ! k)"
    from executeTasksSequentially_cards[OF e d j] m k
    have f: "m_task (final ! j) = Some (taskAfter (server (i + k)) stringify (tasks ! k) t0)"
      by blast
    have s: "snd (trace ! k) =
          streamExecuteTask (server (i + k)) stringify (taskRequest (tasks ! k))"
      using 2 k by blast
    have "t_status (taskAfter (server (i + k)) stringify (tasks ! k) t0) =
            (if isDone (last (snd (trace ! k))) then success else failed)"
      unfolding s using taskAfter_outcome[of "server (i + k)" stringify "tasks ! k" t0] by blast
    with f show "\<exists>t1. m_task (final ! j) = Some t1 \<and>
                 t_status t1 = (if isDone (last (snd (trace ! k))) then success else failed)"
      by blast
  qed
  have 4: "length final = length msgs" using tr by simp
  show ?thesis using e 1 2 3 4 by blast
qed

theorem executeTasksSequentially_runs_every_task_witness:
  "map_option (\<lambda>(final, trace). (map (\<lambda>msg. map_option t_status (m_task msg)) final, map fst trace))
     (executeTasksSequentially (\<lambda>i. stream_execute sampleWorld) sampleStringify 0
        [sampleTask ''t1'' ''filesystem'', sampleTask ''t2'' ''slack'', sampleTask ''t3'' ''calendar'']
        [sampleCard (sampleTask ''t1'' ''filesystem''), sampleCard (sampleTask ''t2'' ''slack''),
         sampleCard (sampleTask ''t3'' ''calendar'')]) =
   Some ([Some failed, Some success, Some success], [lit ''t1'', lit ''t2'', lit ''t3''])"
proof -
  let ?tasks = "[sampleTask ''t1'' ''filesystem'', sampleTask ''t2'' ''slack'',
                 sampleTask ''t3'' ''calendar'']"
  let ?msgs = "[sampleCard (sampleTask ''t1'' ''filesystem''), sampleCard (sampleTask ''t2'' ''slack''),
         sampleCard (sampleTask ''t3'' ''calendar'')]"
  let ?server = "\<lambda>i::nat. stream_execute sampleWorld"
  from executeTasksSequentially_runs_every_task[of ?server sampleStringify 0 ?tasks ?msgs]
  obtain final trace where
    all: "executeTasksSequentially ?server sampleStringify 0 ?tasks ?msgs = Some (final, trace) \<and>
     map fst trace = map t_id ?tasks \<and> length final = length ?msgs \<and>
     (\<forall>k<length ?tasks.
        snd (trace ! k) =
          streamExecuteTask (?server (0 + k)) sampleStringify (taskRequest (?tasks ! k)) \<and>
        length (filter isTerminal (snd (trace ! k))) = 1 \<and>
        isTerminal (last (snd (trace ! k)))) \<and>
     (distinct (map t_id ?tasks) \<longrightarrow>
        (\<forall>k<length ?tasks. \<forall>j<length ?msgs. \<forall>t0.
           m_task (?msgs ! j) = Some t0 \<and> t_id t0 = t_id (?tasks ! k) \<longrightarrow>
           (\<exists>t1. m_task (final ! j) = Some t1 \<and>
                 t_status t1 = (if isDone (last (snd (trace ! k))) then success else failed))))"
    by (elim exE) (rule that, assumption)
  note e = all[THEN conjunct1]
  note ids = all[THEN conjunct2, THEN conjunct1]
  note len = all[THEN conjunct2, THEN conjunct2, THEN conjunct1]
  note ev = all[THEN conjunct2, THEN conjunct2, THEN conjunct2, THEN conjunct1]
  note st = all[THEN conjunct2, THEN conjunct2, THEN conjunct2, THEN conjunct2]
  have d: "distinct (map t_id ?tasks)" by (simp add: sampleTask_def lit_def)
  have e0: "snd (trace ! 0) = streamExecuteTask (stream_execute sampleWorld) sampleStringify
              (taskRequest (sampleTask ''t1'' ''filesystem''))"
    using ev[THEN spec, of 0] by simp
  have e1: "snd (trace ! 1) = streamExecuteTask (stream_execute sampleWorld) sampleStringify
              (taskRequest (sampleTask ''t2'' ''slack''))"
    using ev[THEN spec, of 1] by simp
  have e2: "snd (trace ! 2) = streamExecuteTask (stream_execute sampleWorld) sampleStringify
              (taskRequest (sampleTask ''t3'' ''calendar''))"
    using ev[THEN spec, of 2] by simp
  have l0: "\<not> isDone (last (snd (trace ! 0)))"
    unfolding e0 sample_run_filesystem by simp
  have l1: "isDone (last (snd (trace ! 1)))"
    unfolding e1 sample_run_slack by simp
  have l2: "isDone (last (snd (trace ! 2)))"
    unfolding e2 sample_run_calendar by simp
  note st' = st[THEN mp, OF d]
  have c0: "m_task (?msgs ! 0) = Some (sampleTask ''t1'' ''filesystem'') \<and>
            t_id (sampleTask ''t1'' ''filesystem'') = t_id (?tasks ! 0)"
    by (simp add: sampleCard_def)
  have c1: "m_task (?msgs ! 1) = Some (sampleTask ''t2'' ''slack'') \<and>
            t_id (sampleTask ''t2'' ''slack'') = t_id (?tasks ! 1)"
    by (simp add: sampleCard_def)
  have c2: "m_task (?msgs ! 2) = Some (sampleTask ''t3'' ''calendar'') \<and>
            t_id (sampleTask ''t3'' ''calendar'') = t_id (?tasks ! 2)"
    by (simp add: sampleCard_def)
  have k0: "(0::nat) < length ?tasks" "(0::nat) < length ?msgs" by simp_all
  have k1: "(1::nat) < length ?tasks" "(1::nat) < length ?msgs" by simp_all
  have k2: "(2::nat) < length ?tasks" "(2::nat) < length ?msgs" by simp_all
  from st'[THEN spec, of 0, THEN mp, OF k0(1), THEN spec, of 0, THEN mp, OF k0(2), THEN spec,
      of "sampleTask ''t1'' ''filesystem''", THEN mp, OF c0] l0
  have s0: "map_option t_status (m_task (final ! 0)) = Some failed" by auto
  from st'[THEN spec, of 1, THEN mp, OF k1(1), THEN spec, of 1, THEN mp, OF k1(2), THEN spec,
      of "sampleTask ''t2'' ''slack''", THEN mp, OF c1] l1
  have s1: "map_option t_status (m_task (final ! 1)) = Some success" by auto
  from st'[THEN spec, of 2, THEN mp, OF k2(1), THEN spec, of 2, THEN mp, OF k2(2), THEN spec,
      of "sampleTask ''t3'' ''calendar''", THEN mp, OF c2] l2
  have s2: "map_option t_status (m_task (final ! 2)) = Some success" by auto
  have "length final = 3" using len by simp
  then obtain a b c where f: "final = [a, b, c]"
    by (auto simp: length_Suc_conv numeral_3_eq_3)
  have "map (\<lambda>msg. map_option t_status (m_task msg)) final =
          [Some failed, Some success, Some success]"
    using s0 s1 s2 by (simp add: f)
  moreover have "map fst trace = [lit ''t1'', lit ''t2'', lit ''t3'']"
    using ids by (simp add: sampleTask_def)
  ultimately show ?thesis by (simp add: e)
qed

end
